theory Spec2Isabelle
  imports Complex_Main
begin

section \<open>Numbers\<close>

text \<open>
  The program computes with JavaScript numbers, which are IEEE 754 doubles. Positions,
  opacities and scroll offsets are modelled as exact reals: what is proved of them does not
  turn on rounding. The pointer force is modelled with the rounding of every operation
  (see \<open>rnd\<close> below), because what its speed limit leaves is decided by rounding.

  A division by zero leaves the finite numbers, so every division whose divisor is not a
  non-zero literal goes through \<open>fdiv\<close>, which returns the non-finite value JavaScript
  yields. (The divisors of this program that can be zero are a difference, a square root
  and a constant: their zero is the positive one.)
\<close>

datatype nonfinite = NaN | PosInfinity | NegInfinity

definition fdiv :: "real \<Rightarrow> real \<Rightarrow> nonfinite + real" where
  "fdiv a b =
     (if b = 0
      then Inl (if a = 0 then NaN else if 0 < a then PosInfinity else NegInfinity)
      else Inr (a / b))"

section \<open>Rounding to a double\<close>

text \<open>
  The result of an arithmetic operation on doubles is the exact result rounded to the
  nearest number with a significand of 53 bits, a tie going to the even significand.
  \<open>ulp x\<close> is the distance between neighbouring doubles at the magnitude of \<open>x\<close>. The
  exponent is not bounded here: overflow to infinity and the subnormal numbers below
  \<open>2 powr - 1022\<close> are outside the model.
\<close>

definition ulp :: "real \<Rightarrow> real" where
  "ulp x = 2 powr real_of_int (\<lfloor>log 2 \<bar>x\<bar>\<rfloor> - 52)"

definition roundEven :: "real \<Rightarrow> int" where
  "roundEven y =
     (let f = \<lfloor>y\<rfloor>
      in if y - real_of_int f < 1 / 2 then f
         else if 1 / 2 < y - real_of_int f then f + 1
         else if even f then f else f + 1)"

definition rnd :: "real \<Rightarrow> real" where
  "rnd x = (if x = 0 then 0 else real_of_int (roundEven (x / ulp x)) * ulp x)"

text \<open>The reals that are doubles.\<close>

definition is_double :: "real \<Rightarrow> bool" where
  "is_double x = (rnd x = x)"

text \<open>A quotient or product that may be non-finite, rounded when it is finite.\<close>

fun roundNum :: "nonfinite + real \<Rightarrow> nonfinite + real" where
  "roundNum (Inl e) = Inl e"
| "roundNum (Inr q) = Inr (rnd q)"

section \<open>Particles (ParticleBackgroundOptimized.jsx)\<close>

text \<open>\<open>canvas.width\<close> and \<open>canvas.height\<close> are unsigned integers in the DOM.\<close>

record canvas =
  width :: nat
  height :: nat

text \<open>
  The fields of \<open>class Particle\<close>. \<open>x\<close>, \<open>y\<close> and \<open>size\<close> carry a suffix; \<open>color\<close> is the
  prefix of the CSS colour that \<open>draw\<close> completes with the opacity.
\<close>

record particle =
  x_p :: real
  y_p :: real
  size_p :: real
  speedX :: real
  speedY :: real
  color :: string
  opacity :: real
  opacityDirection :: int

text \<open>
  The values \<open>Math.random()\<close> returns to one run of the constructor, in the order of the
  calls. Each lies in \<open>[0, 1)\<close>.
\<close>

record draws =
  rX :: real
  rY :: real
  rSize :: real
  rSpeedX :: real
  rSpeedY :: real
  rColor :: real
  rOpacity :: real
  rDirection :: real

definition unit_draw :: "real \<Rightarrow> bool" where
  "unit_draw r = (0 \<le> r \<and> r < 1)"

definition colors :: "string list" where
  "colors = [''rgba(139, 92, 246, '', ''rgba(6, 182, 212, '', ''rgba(236, 72, 153, '']"

text \<open>\<open>colors[Math.floor(Math.random() * colors.length)]\<close>; an index outside the array reads \<open>undefined\<close>.\<close>

definition getRandomColor :: "real \<Rightarrow> string" where
  "getRandomColor r =
     (let i = \<lfloor>r * real (length colors)\<rfloor>
      in if 0 \<le> i \<and> i < int (length colors) then colors ! nat i else ''undefined'')"

definition Particle_new :: "canvas \<Rightarrow> draws \<Rightarrow> particle" where
  "Particle_new cv rs =
     \<lparr> x_p = rX rs * real (width cv),
       y_p = rY rs * real (height cv),
       size_p = rSize rs * 2 + 0.5,
       speedX = (rSpeedX rs - 0.5) * 0.3,
       speedY = (rSpeedY rs - 0.5) * 0.3,
       color = getRandomColor (rColor rs),
       opacity = rOpacity rs * 0.4 + 0.2,
       opacityDirection = (if rDirection rs > 0.5 then 1 else - 1) \<rparr>"

text \<open>
  \<open>Particle.update\<close>. The four wrap tests and the two direction tests are separate \<open>if\<close>
  statements run in sequence, each on the value the previous one left.
\<close>

definition update :: "canvas \<Rightarrow> particle \<Rightarrow> particle" where
  "update cv p =
     (let x1 = x_p p + speedX p;
          y1 = y_p p + speedY p;
          x2 = (if x1 > real (width cv) then 0 else x1);
          x3 = (if x2 < 0 then real (width cv) else x2);
          y2 = (if y1 > real (height cv) then 0 else y1);
          y3 = (if y2 < 0 then real (height cv) else y2);
          o1 = opacity p + real_of_int (opacityDirection p) * 0.005;
          d1 = (if o1 > 0.6 then - 1 else opacityDirection p);
          d2 = (if o1 < 0.15 then 1 else d1)
      in p\<lparr> x_p := x3, y_p := y3, opacity := o1, opacityDirection := d2 \<rparr>)"

text \<open>One \<open>update\<close> per animation frame, each with the canvas as it is in that frame.\<close>

fun updates :: "canvas list \<Rightarrow> particle \<Rightarrow> particle" where
  "updates [] p = p"
| "updates (cv # cvs) p = updates cvs (update cv p)"

text \<open>What the oscillator keeps true of \<open>opacity\<close> and \<open>opacityDirection\<close>.\<close>

definition opacity_inv :: "particle \<Rightarrow> bool" where
  "opacity_inv p =
     (0.145 \<le> opacity p \<and> opacity p \<le> 0.605 \<and>
      (opacityDirection p = 1 \<or> opacityDirection p = - 1) \<and>
      (0.6 < opacity p \<longrightarrow> opacityDirection p = - 1) \<and>
      (opacity p < 0.15 \<longrightarrow> opacityDirection p = 1))"

section \<open>Spatial grid\<close>

text \<open>
  A cell coordinate is the result of \<open>Math.floor(particle.x / cellSize)\<close>: an integer, or a
  non-finite value when \<open>cellSize\<close> is zero. Adding an integer to a non-finite value leaves it
  as it is.
\<close>

type_synonym cellnum = "nonfinite + int"

fun floorNum :: "nonfinite + real \<Rightarrow> cellnum" where
  "floorNum (Inl e) = Inl e"
| "floorNum (Inr q) = Inr \<lfloor>q\<rfloor>"

fun addNum :: "cellnum \<Rightarrow> int \<Rightarrow> cellnum" where
  "addNum (Inl e) d = Inl e"
| "addNum (Inr i) d = Inr (i + d)"

text \<open>
  The text a template literal gives for a cell coordinate: decimal digits, with a minus
  sign for a negative integer. (Integers of 22 digits and more, which JavaScript prints
  with an exponent, do not arise from canvas coordinates.)
\<close>

definition digitChar :: "nat \<Rightarrow> char" where
  "digitChar d = ''0123456789'' ! d"

function showNat :: "nat \<Rightarrow> string" where
  "showNat n = (if n < 10 then [digitChar n] else showNat (n div 10) @ [digitChar (n mod 10)])"
  by pat_completeness auto
termination
  by (relation "measure id") auto

declare showNat.simps [simp del]

definition showInt :: "int \<Rightarrow> string" where
  "showInt i = (if i < 0 then CHR ''-'' # showNat (nat (- i)) else showNat (nat i))"

fun showNum :: "cellnum \<Rightarrow> string" where
  "showNum (Inl NaN) = ''NaN''"
| "showNum (Inl PosInfinity) = ''Infinity''"
| "showNum (Inl NegInfinity) = ''-Infinity''"
| "showNum (Inr i) = showInt i"

text \<open>The key \<^verbatim>\<open>`${cellX},${cellY}`\<close>.\<close>

definition cellKey :: "cellnum \<Rightarrow> cellnum \<Rightarrow> string" where
  "cellKey cellX cellY = showNum cellX @ '','' @ showNum cellY"

text \<open>
  The grid is an object with one array per key. Its arrays hold references to the
  particles of the \<open>particles\<close> array, which is filled once and never changes its length: a
  reference is modelled as the particle's index in that array, so that a grid built in an
  earlier frame sees the particles where they are now, as in the program, and
  \<open>particle === other\<close> is equality of indices.
\<close>

type_synonym grid = "string \<rightharpoonup> nat list"

definition buildGrid :: "particle list \<Rightarrow> real \<Rightarrow> grid" where
  "buildGrid particles cellSize =
     foldl (\<lambda>grid i.
        let particle = particles ! i;
            cellX = floorNum (fdiv (x_p particle) cellSize);
            cellY = floorNum (fdiv (y_p particle) cellSize);
            key = cellKey cellX cellY;
            bucket = (case grid key of None \<Rightarrow> [] | Some b \<Rightarrow> b)
        in grid(key \<mapsto> bucket @ [i]))
       Map.empty [0..<length particles]"

definition getNearbyCells :: "cellnum \<Rightarrow> cellnum \<Rightarrow> string list" where
  "getNearbyCells cellX cellY =
     concat (map (\<lambda>dx. map (\<lambda>dy. cellKey (addNum cellX dx) (addNum cellY dy)) [- 1, 0, 1])
                 [- 1, 0, 1])"

text \<open>\<open>gridRef.current\<close>: created as \<open>{ cells: {}, cellSize: 150 }\<close>.\<close>

record gridref =
  cells :: grid
  cellSize :: real

definition gridRef_init :: gridref where
  "gridRef_init = \<lparr> cells = Map.empty, cellSize = 150 \<rparr>"

section \<open>Connection pass\<close>

text \<open>
  The neighbour query at the head of the connection pass: the nine keys around the
  particle's cell, and the buckets the grid has for them, one after the other
  (\<open>nearbyParticles\<close> in \<open>animate\<close>). A bucket, once created, is an array and so passes the
  test \<open>if (cells[key])\<close>.
\<close>

definition nearbyParticles :: "gridref \<Rightarrow> particle \<Rightarrow> nat list" where
  "nearbyParticles g particle =
     (let cellX = floorNum (fdiv (x_p particle) (cellSize g));
          cellY = floorNum (fdiv (y_p particle) (cellSize g));
          nearbyCellKeys = getNearbyCells cellX cellY
      in concat (map (\<lambda>key. case cells g key of None \<Rightarrow> [] | Some b \<Rightarrow> b) nearbyCellKeys))"

definition maxDistSq :: real where
  "maxDistSq = 120 * 120"

definition distSq :: "particle \<Rightarrow> particle \<Rightarrow> real" where
  "distSq particle other =
     (let dx = x_p particle - x_p other; dy = y_p particle - y_p other
      in dx * dx + dy * dy)"

text \<open>
  The body of the outer \<open>forEach\<close> of the connection pass, for the particle at index \<open>i\<close>:
  the pairs (particle, other) for which a line is stroked, in the order of the strokes.
\<close>

definition connectionsOf :: "particle list \<Rightarrow> gridref \<Rightarrow> nat \<Rightarrow> (nat \<times> nat) list" where
  "connectionsOf particles g i =
     (let particle = particles ! i
      in map (Pair i)
           (filter (\<lambda>other. other \<noteq> i \<and> distSq particle (particles ! other) < maxDistSq)
              (nearbyParticles g particle)))"

definition connectionPass :: "particle list \<Rightarrow> gridref \<Rightarrow> (nat \<times> nat) list" where
  "connectionPass particles g = concat (map (connectionsOf particles g) [0..<length particles])"

text \<open>
  The reference the specification compares the grid with: every particle against every
  other particle, with the same test on the squared distance. A connection is reported
  with its direction, as the pass strokes a line from each of its two ends.
\<close>

definition bruteForceConnections :: "particle list \<Rightarrow> (nat \<times> nat) list" where
  "bruteForceConnections particles =
     concat (map (\<lambda>i. map (Pair i)
                    (filter (\<lambda>j. j \<noteq> i \<and> distSq (particles ! i) (particles ! j) < maxDistSq)
                       [0..<length particles]))
                 [0..<length particles])"

text \<open>
  The loop of the component this one replaces, as \<open>PERFORMANCE_BEFORE_AFTER.md\<close> quotes it:
  every particle against the particles after it in the array, one stroke for a pair,
  tested on the distance itself.
\<close>

definition naiveConnections :: "particle list \<Rightarrow> (nat \<times> nat) list" where
  "naiveConnections particles =
     concat (map (\<lambda>index. map (Pair index)
                    (filter (\<lambda>j. let particle = particles ! index;
                                     other = particles ! j;
                                     dx = x_p particle - x_p other;
                                     dy = y_p particle - y_p other;
                                     distance = sqrt (dx * dx + dy * dy)
                                 in distance < 120)
                       [index + 1..<length particles]))
                 [0..<length particles])"

text \<open>A line without its direction: the two particles it joins.\<close>

definition lineOf :: "nat \<times> nat \<Rightarrow> nat set" where
  "lineOf c = {fst c, snd c}"

section \<open>Animation frame\<close>

text \<open>
  What a frame paints: \<open>clearRect\<close>, a filled circle (position, radius, colour prefix and
  opacity), a stroked line (its two ends and \<open>globalAlpha\<close>; stroke style and line width
  are constants).
\<close>

datatype drawop =
    ClearRect real real real real
  | FillCircle real real real string real
  | StrokeLine real real real real real

fun is_StrokeLine :: "drawop \<Rightarrow> bool" where
  "is_StrokeLine (StrokeLine x1 y1 x2 y2 a) = True"
| "is_StrokeLine _ = False"

definition draw :: "particle \<Rightarrow> drawop" where
  "draw p = FillCircle (x_p p) (y_p p) (size_p p) (color p) (opacity p)"

definition strokeOf :: "particle list \<Rightarrow> nat \<times> nat \<Rightarrow> drawop" where
  "strokeOf particles c =
     (let particle = particles ! fst c;
          other = particles ! snd c;
          distance = sqrt (distSq particle other)
      in StrokeLine (x_p particle) (y_p particle) (x_p other) (y_p other)
           (((120 - distance) / 120) * 0.15))"

text \<open>
  The state \<open>animate\<close> works on. \<open>animationIdRef.current\<close> starts as \<open>null\<close>, which the two
  places that read it treat as \<open>0\<close> (\<open>!null\<close> and \<open>null || 0\<close>).
\<close>

record field_state =
  particles :: "particle list"
  gridRef :: gridref
  animationIdRef :: nat

text \<open>
  One call of \<open>animate\<close>, given \<open>mediaQuery.matches\<close> and the canvas: the new state and the
  drawing operations in order. \<open>update\<close> and \<open>draw\<close> touch only their own particle, so the
  loop that alternates them is the two maps.
\<close>

definition animate :: "bool \<Rightarrow> canvas \<Rightarrow> field_state \<Rightarrow> field_state \<times> drawop list" where
  "animate reducedMotion cv st =
     (let ps = map (update cv) (particles st);
          dots = map draw ps;
          n = animationIdRef st;
          g = (if n = 0 \<or> n mod 3 = 0
               then (gridRef st)\<lparr> cells := buildGrid ps (cellSize (gridRef st)) \<rparr>
               else gridRef st);
          lines = (if \<not> reducedMotion then map (strokeOf ps) (connectionPass ps g) else [])
      in (\<lparr> particles = ps, gridRef = g, animationIdRef = n + 1 \<rparr>,
          ClearRect 0 0 (real (width cv)) (real (height cv)) # dots @ lines))"

section \<open>Pointer force\<close>

definition interactionRadius :: real where
  "interactionRadius = 100"

definition maxSpeed :: real where
  "maxSpeed = 1.5"

text \<open>A product with a value that may be non-finite.\<close>

fun mulNum :: "nonfinite + real \<Rightarrow> real \<Rightarrow> nonfinite + real" where
  "mulNum (Inr q) k = Inr (q * k)"
| "mulNum (Inl NaN) k = Inl NaN"
| "mulNum (Inl PosInfinity) k =
     Inl (if k = 0 then NaN else if 0 < k then PosInfinity else NegInfinity)"
| "mulNum (Inl NegInfinity) k =
     Inl (if k = 0 then NaN else if 0 < k then NegInfinity else PosInfinity)"

text \<open>
  The unit roundoff of doubles, and the bound that the speed limit keeps: \<open>maxSpeed\<close>
  with room for the rounding of the limiter's operations.
\<close>

definition roundoff :: real where
  "roundoff = 1 / 2 ^ 53"

definition speedBound :: real where
  "speedBound = maxSpeed * (1 + 5 * roundoff)"

text \<open>The speed of a particle: the length of its velocity, as a real number.\<close>

definition speedOf :: "particle \<Rightarrow> real" where
  "speedOf p = sqrt (speedX p ^ 2 + speedY p ^ 2)"

text \<open>
  The speed as the program computes it,
  \<open>Math.sqrt(particle.speedX ** 2 + particle.speedY ** 2)\<close>: the squares (\<open>x ** 2\<close> is the
  rounded product of \<open>x\<close> with itself), their sum and the square root are rounded in turn.
\<close>

definition computedSpeed :: "particle \<Rightarrow> real" where
  "computedSpeed p =
     rnd (sqrt (rnd (rnd (speedX p * speedX p) + rnd (speedY p * speedY p))))"

text \<open>
  The speed limit at the end of the pointer loop's body. The result is \<open>Inl\<close> when a
  component of the velocity would become non-finite.
\<close>

definition limitSpeed :: "particle \<Rightarrow> nonfinite + particle" where
  "limitSpeed p =
     (let speed = computedSpeed p
      in if speed > maxSpeed
         then (case roundNum (mulNum (roundNum (fdiv (speedX p) speed)) maxSpeed) of
                 Inl e \<Rightarrow> Inl e
               | Inr vx \<Rightarrow>
                   (case roundNum (mulNum (roundNum (fdiv (speedY p) speed)) maxSpeed) of
                      Inl e \<Rightarrow> Inl e
                    | Inr vy \<Rightarrow> Inr (p\<lparr> speedX := vx, speedY := vy \<rparr>)))
         else Inr p)"

text \<open>
  The body of the \<open>forEach\<close> in \<open>handleMouseMove\<close>, for the pointer at \<open>(mouseX, mouseY)\<close>.
  The divisor \<open>interactionRadius\<close> is the literal 100, and \<open>rnd 0.005\<close> is the double that
  the literal \<open>0.005\<close> denotes.
\<close>

definition mouseForce :: "real \<Rightarrow> real \<Rightarrow> particle \<Rightarrow> nonfinite + particle" where
  "mouseForce mouseX mouseY p =
     (let dx = rnd (mouseX - x_p p);
          dy = rnd (mouseY - y_p p);
          distance = rnd (sqrt (rnd (rnd (dx * dx) + rnd (dy * dy))))
      in if distance < interactionRadius
         then (let force = rnd (rnd (interactionRadius - distance) / interactionRadius)
               in limitSpeed
                    (p\<lparr> speedX := rnd (speedX p + rnd (rnd (dx * force) * rnd 0.005)),
                       speedY := rnd (speedY p + rnd (rnd (dy * force) * rnd 0.005)) \<rparr>))
         else Inr p)"

section \<open>Particle count\<close>

text \<open>\<open>window.devicePixelRatio < 1 || !navigator.hardwareConcurrency\<close>; the latter may be undefined.\<close>

definition isLowPowerDevice :: "real \<Rightarrow> nat option \<Rightarrow> bool" where
  "isLowPowerDevice devicePixelRatio hardwareConcurrency =
     (devicePixelRatio < 1 \<or>
      (case hardwareConcurrency of None \<Rightarrow> True | Some n \<Rightarrow> n = 0))"

definition particleCount :: "bool \<Rightarrow> canvas \<Rightarrow> nat" where
  "particleCount lowPower cv =
     (if lowPower
      then max 30 ((width cv * height cv) div 20000)
      else max 80 (min 100 ((width cv * height cv) div 8000)))"

text \<open>
  The canvas the effect reads. The \<open>canvas\<close> element is rendered without \<open>width\<close> and
  \<open>height\<close>, so it has the default size of 300 by 150 when the count is computed:
  \<open>resizeCanvas()\<close> is called after it.
\<close>

definition canvas_on_mount :: canvas where
  "canvas_on_mount = \<lparr> width = 300, height = 150 \<rparr>"

text \<open>
  The quotient inside the count,
  \<open>Math.floor((canvas.width * canvas.height) / 20000)\<close> on a low-power device and
  \<open>Math.floor((canvas.width * canvas.height) / 8000)\<close> otherwise.
\<close>

definition areaQuotient :: "bool \<Rightarrow> canvas \<Rightarrow> nat" where
  "areaQuotient lowPower cv = (width cv * height cv) div (if lowPower then 20000 else 8000)"



section \<open>Scroll progress\<close>

text \<open>\<open>handleScroll\<close> of the hook \<open>useScrollOptimized\<close>.\<close>

definition useScrollOptimized_scrollPercent :: "real \<Rightarrow> real \<Rightarrow> real \<Rightarrow> nonfinite + real" where
  "useScrollOptimized_scrollPercent scrollTop scrollHeight innerHeight =
     (let docHeight = scrollHeight - innerHeight
      in if docHeight > 0 then mulNum (fdiv scrollTop docHeight) 100 else Inr 0)"

text \<open>\<open>handleScroll\<close> of \<open>App.jsx\<close>.\<close>

definition App_scrollPercent :: "real \<Rightarrow> real \<Rightarrow> real \<Rightarrow> nonfinite + real" where
  "App_scrollPercent scrollTop scrollHeight innerHeight =
     (let docHeight = scrollHeight - innerHeight
      in mulNum (fdiv scrollTop docHeight) 100)"

text \<open>The width, in percent, of the progress ray of \<open>MagicalScrollEffects.jsx\<close>.\<close>

definition MagicalScrollEffects_rayWidth :: "real \<Rightarrow> real \<Rightarrow> real \<Rightarrow> nonfinite + real" where
  "MagicalScrollEffects_rayWidth scrollY scrollHeight innerHeight =
     mulNum (fdiv scrollY (scrollHeight - innerHeight)) 100"

section \<open>Vocabulary of the proofs\<close>

text \<open>The characters a non-negative integer is printed with.\<close>

definition is_digit :: "char \<Rightarrow> bool" where
  "is_digit c = (c \<in> set ''0123456789'')"

text \<open>The bucket a grid has for a key, empty when the key is absent.\<close>

definition bucketOf :: "grid \<Rightarrow> string \<Rightarrow> nat list" where
  "bucketOf g key = (case g key of None \<Rightarrow> [] | Some b \<Rightarrow> b)"

text \<open>The key of the cell a particle lies in, as \<open>buildGrid\<close> computes it.\<close>

definition keyOf :: "real \<Rightarrow> particle \<Rightarrow> string" where
  "keyOf cs p = cellKey (floorNum (fdiv (x_p p) cs)) (floorNum (fdiv (y_p p) cs))"

section \<open>Position wrapping\<close>

lemma update_x_range: "0 \<le> x_p (update cv p) \<and> x_p (update cv p) \<le> real (width cv)"
  by (simp add: update_def Let_def)

lemma update_y_range: "0 \<le> y_p (update cv p) \<and> y_p (update cv p) \<le> real (height cv)"
  by (simp add: update_def Let_def)

text \<open>
  C3, as stated, fails: a particle at the left edge that moves left is put on
  \<open>canvas.width\<close> itself, which is outside the half-open interval.
\<close>

theorem update_half_open_counterexample:
  "\<not> x_p (update \<lparr> width = 800, height = 600 \<rparr>
            \<lparr> x_p = 0, y_p = 10, size_p = 1, speedX = - 1, speedY = 0,
              color = ''rgba(6, 182, 212, '', opacity = 0.3, opacityDirection = 1 \<rparr>)
       < real (width \<lparr> width = 800, height = 600 \<rparr>)"
  by (simp add: update_def Let_def)

text \<open>
  C3, amended: after \<open>update\<close>, whatever the position and velocity before, the position
  lies in the closed intervals \<open>[0, width]\<close> and \<open>[0, height]\<close>.
\<close>

theorem update_position_closed_range:
  "0 \<le> x_p (update cv p) \<and> x_p (update cv p) \<le> real (width cv) \<and>
   0 \<le> y_p (update cv p) \<and> y_p (update cv p) \<le> real (height cv)"
  using update_x_range [of cv p] update_y_range [of cv p] by simp

section \<open>Opacity oscillator\<close>

lemma Particle_new_opacity_inv:
  assumes "unit_draw (rOpacity rs)"
  shows "opacity_inv (Particle_new cv rs)"
  using assms by (simp add: opacity_inv_def Particle_new_def unit_draw_def)

lemma update_opacity_inv:
  assumes "opacity_inv p"
  shows "opacity_inv (update cv p)"
  using assms by (auto simp: opacity_inv_def update_def Let_def)

lemma updates_opacity_inv: "opacity_inv p \<Longrightarrow> opacity_inv (updates cvs p)"
  by (induction cvs arbitrary: p) (simp_all add: update_opacity_inv)

text \<open>
  C4: a particle built by the constructor (opacity drawn from \<open>[0.2, 0.6)\<close>) has its
  opacity in \<open>[0, 1]\<close> at once and after any number of \<open>update\<close> calls.
\<close>

theorem opacity_bounded:
  assumes "unit_draw (rOpacity rs)"
  shows "0 \<le> opacity (updates cvs (Particle_new cv rs)) \<and>
         opacity (updates cvs (Particle_new cv rs)) \<le> 1"
proof -
  have "opacity_inv (updates cvs (Particle_new cv rs))"
    using assms by (intro updates_opacity_inv Particle_new_opacity_inv)
  then show ?thesis
    by (simp add: opacity_inv_def)
qed

theorem opacity_bounded_witness:
  "unit_draw (rOpacity \<lparr> rX = 0.5, rY = 0.5, rSize = 0.5, rSpeedX = 0.5, rSpeedY = 0.5,
                          rColor = 0.5, rOpacity = 0.99, rDirection = 0.9 \<rparr>) \<and>
   0 \<le> opacity (updates [\<lparr> width = 800, height = 600 \<rparr>, \<lparr> width = 640, height = 480 \<rparr>]
                  (Particle_new \<lparr> width = 800, height = 600 \<rparr>
                     \<lparr> rX = 0.5, rY = 0.5, rSize = 0.5, rSpeedX = 0.5, rSpeedY = 0.5,
                       rColor = 0.5, rOpacity = 0.99, rDirection = 0.9 \<rparr>)) \<and>
   opacity (updates [\<lparr> width = 800, height = 600 \<rparr>, \<lparr> width = 640, height = 480 \<rparr>]
              (Particle_new \<lparr> width = 800, height = 600 \<rparr>
                 \<lparr> rX = 0.5, rY = 0.5, rSize = 0.5, rSpeedX = 0.5, rSpeedY = 0.5,
                   rColor = 0.5, rOpacity = 0.99, rDirection = 0.9 \<rparr>)) \<le> 1"
  using opacity_bounded
    [of "\<lparr> rX = 0.5, rY = 0.5, rSize = 0.5, rSpeedX = 0.5, rSpeedY = 0.5,
           rColor = 0.5, rOpacity = 0.99, rDirection = 0.9 \<rparr>"
        "[\<lparr> width = 800, height = 600 \<rparr>, \<lparr> width = 640, height = 480 \<rparr>]"
        "\<lparr> width = 800, height = 600 \<rparr>"]
  by (simp add: unit_draw_def)

section \<open>Cell keys are injective\<close>

lemma digitChar_is_digit: "d < 10 \<Longrightarrow> is_digit (digitChar d)"
  unfolding is_digit_def digitChar_def by (rule nth_mem) simp

lemma digitChar_inj:
  assumes "a < 10" and "b < 10" and "digitChar a = digitChar b"
  shows "a = b"
proof -
  have "distinct ''0123456789''" by simp
  with assms show ?thesis
    unfolding digitChar_def by (simp add: nth_eq_iff_index_eq)
qed

lemma showNat_digits: "c \<in> set (showNat n) \<Longrightarrow> is_digit c"
proof (induction n rule: showNat.induct)
  case (1 n)
  show ?case
  proof (cases "n < 10")
    case True
    with 1(2) show ?thesis by (simp add: showNat.simps [of n] digitChar_is_digit)
  next
    case False
    with 1 show ?thesis by (auto simp: showNat.simps [of n] digitChar_is_digit)
  qed
qed

lemma showNat_nonempty: "showNat n \<noteq> []" "[] \<noteq> showNat n"
  by (subst showNat.simps, simp)+

lemma showNat_inj: "showNat n = showNat m \<Longrightarrow> n = m"
proof (induction n arbitrary: m rule: showNat.induct)
  case (1 n)
  show ?case
  proof (cases "n < 10")
    case n: True
    show ?thesis
    proof (cases "m < 10")
      case True
      with n 1(2) show ?thesis
        by (simp add: showNat.simps [of n] showNat.simps [of m] digitChar_inj)
    next
      case False
      with n 1(2) show ?thesis
        by (simp add: showNat.simps [of n] showNat.simps [of m] showNat_nonempty)
    qed
  next
    case n: False
    show ?thesis
    proof (cases "m < 10")
      case True
      with n 1(2) show ?thesis
        by (simp add: showNat.simps [of n] showNat.simps [of m] showNat_nonempty)
    next
      case False
      with n 1(2) have e1: "showNat (n div 10) = showNat (m div 10)"
        and e2: "digitChar (n mod 10) = digitChar (m mod 10)"
        by (simp_all add: showNat.simps [of n] showNat.simps [of m])
      from 1(1) [OF n e1] have "n div 10 = m div 10" .
      moreover from e2 have "n mod 10 = m mod 10"
        by (intro digitChar_inj) simp_all
      ultimately show ?thesis
        by (metis div_mult_mod_eq)
    qed
  qed
qed

lemma showNat_hd_digit: "is_digit (hd (showNat n))"
  using showNat_digits [of "hd (showNat n)" n] showNat_nonempty(1) [of n] by simp

lemma showInt_inj: "showInt i = showInt j \<Longrightarrow> i = j"
proof -
  assume e: "showInt i = showInt j"
  have nd: "\<not> is_digit CHR ''-''" by (simp add: is_digit_def)
  have hd: "hd (showNat n) \<noteq> CHR ''-''" for n
    using showNat_hd_digit [of n] nd by auto
  show "i = j"
  proof (cases "i < 0")
    case i: True
    show ?thesis
    proof (cases "j < 0")
      case True
      with i e have "showNat (nat (- i)) = showNat (nat (- j))" by (simp add: showInt_def)
      then have "nat (- i) = nat (- j)" by (rule showNat_inj)
      with i True show ?thesis by simp
    next
      case False
      with i e have "hd (showNat (nat j)) = CHR ''-''"
        by (simp add: showInt_def) (metis list.sel(1))
      with hd show ?thesis by blast
    qed
  next
    case i: False
    show ?thesis
    proof (cases "j < 0")
      case True
      with i e have "hd (showNat (nat i)) = CHR ''-''" by (simp add: showInt_def)
      with hd show ?thesis by blast
    next
      case False
      with i e have "showNat (nat i) = showNat (nat j)" by (simp add: showInt_def)
      then have "nat i = nat j" by (rule showNat_inj)
      with i False show ?thesis by simp
    qed
  qed
qed

lemma showInt_no_comma: "CHR '','' \<notin> set (showInt i)"
proof -
  have "\<not> is_digit CHR '',''" by (simp add: is_digit_def)
  then have "CHR '','' \<notin> set (showNat n)" for n
    using showNat_digits by blast
  then show ?thesis by (simp add: showInt_def)
qed

lemma split_at_comma:
  assumes "a @ CHR '','' # b = c @ CHR '','' # d"
    and "CHR '','' \<notin> set a" and "CHR '','' \<notin> set c"
  shows "a = c \<and> b = d"
  using assms
proof (induction a arbitrary: c)
  case Nil
  then show ?case by (cases c) auto
next
  case (Cons h t)
  then show ?case by (cases c) auto
qed

lemma cellKey_Inr_inj:
  "cellKey (Inr a) (Inr b) = cellKey (Inr c) (Inr d) \<longleftrightarrow> a = c \<and> b = d"
proof
  assume "cellKey (Inr a) (Inr b) = cellKey (Inr c) (Inr d)"
  then have "showInt a @ CHR '','' # showInt b = showInt c @ CHR '','' # showInt d"
    by (simp add: cellKey_def)
  then have "showInt a = showInt c \<and> showInt b = showInt d"
    by (rule split_at_comma) (rule showInt_no_comma)+
  then show "a = c \<and> b = d"
    by (simp add: showInt_inj)
qed simp

section \<open>Buckets of a built grid\<close>

lemma bucketOf_insert:
  "bucketOf (g(k \<mapsto> bucketOf g k @ [i])) key = bucketOf g key @ (if k = key then [i] else [])"
  by (simp add: bucketOf_def)

lemma bucketOf_foldl:
  "bucketOf (foldl (\<lambda>grid i. grid(f i \<mapsto> bucketOf grid (f i) @ [i])) g is) key =
   bucketOf g key @ filter (\<lambda>i. f i = key) is"
proof (induction "is" arbitrary: g)
  case Nil
  show ?case by simp
next
  case (Cons i "is")
  let ?step = "\<lambda>grid i. grid(f i \<mapsto> bucketOf grid (f i) @ [i])"
  have "bucketOf (foldl ?step g (i # is)) key = bucketOf (foldl ?step (?step g i) is) key"
    by (simp only: foldl_Cons)
  also have "\<dots> = bucketOf (?step g i) key @ filter (\<lambda>i. f i = key) is"
    by (rule Cons.IH)
  also have "bucketOf (?step g i) key = bucketOf g key @ (if f i = key then [i] else [])"
    by (rule bucketOf_insert)
  finally show ?case by simp
qed

text \<open>A bucket holds, in order, the particles whose cell has its key.\<close>

lemma bucketOf_buildGrid:
  "bucketOf (buildGrid ps cs) key = filter (\<lambda>i. keyOf cs (ps ! i) = key) [0..<length ps]"
proof -
  have "buildGrid ps cs =
        foldl (\<lambda>grid i. grid(keyOf cs (ps ! i) \<mapsto> bucketOf grid (keyOf cs (ps ! i)) @ [i]))
          Map.empty [0..<length ps]"
    by (simp add: buildGrid_def keyOf_def bucketOf_def Let_def)
  then show ?thesis
    by (simp add: bucketOf_foldl) (simp add: bucketOf_def)
qed

lemma distinct_concat_filter:
  "distinct xs \<Longrightarrow> distinct keys \<Longrightarrow>
   distinct (concat (map (\<lambda>key. filter (\<lambda>i. f i = key) xs) keys))"
  by (induction keys) auto

section \<open>The nine keys\<close>

lemma keyOf_nonzero:
  "cs \<noteq> 0 \<Longrightarrow> keyOf cs p = cellKey (Inr \<lfloor>x_p p / cs\<rfloor>) (Inr \<lfloor>y_p p / cs\<rfloor>)"
  by (simp add: keyOf_def fdiv_def)

lemma getNearbyCells_Inr:
  "getNearbyCells (Inr a) (Inr b) =
   [cellKey (Inr (a - 1)) (Inr (b - 1)), cellKey (Inr (a - 1)) (Inr b),
    cellKey (Inr (a - 1)) (Inr (b + 1)),
    cellKey (Inr a) (Inr (b - 1)), cellKey (Inr a) (Inr b), cellKey (Inr a) (Inr (b + 1)),
    cellKey (Inr (a + 1)) (Inr (b - 1)), cellKey (Inr (a + 1)) (Inr b),
    cellKey (Inr (a + 1)) (Inr (b + 1))]"
  by (simp add: getNearbyCells_def)

lemma mem_getNearbyCells:
  "cellKey (Inr c) (Inr d) \<in> set (getNearbyCells (Inr a) (Inr b)) \<longleftrightarrow>
   \<bar>c - a\<bar> \<le> 1 \<and> \<bar>d - b\<bar> \<le> 1"
  unfolding getNearbyCells_Inr by (simp add: cellKey_Inr_inj) presburger

lemma distinct_getNearbyCells: "distinct (getNearbyCells (Inr a) (Inr b))"
  unfolding getNearbyCells_Inr by (simp add: cellKey_Inr_inj)

section \<open>Cells and distances\<close>

lemma floor_near:
  fixes u v :: real
  assumes "\<bar>u - v\<bar> \<le> 1"
  shows "\<bar>\<lfloor>u\<rfloor> - \<lfloor>v\<rfloor>\<bar> \<le> 1"
proof -
  have "\<lfloor>u\<rfloor> \<le> \<lfloor>v + 1\<rfloor>" using assms by (intro floor_mono) linarith
  moreover have "\<lfloor>v\<rfloor> \<le> \<lfloor>u + 1\<rfloor>" using assms by (intro floor_mono) linarith
  ultimately show ?thesis by simp
qed

lemma floor_far:
  fixes u v :: real
  assumes "\<bar>\<lfloor>u\<rfloor> - \<lfloor>v\<rfloor>\<bar> \<le> 1"
  shows "\<bar>u - v\<bar> < 2"
proof -
  have "real_of_int \<lfloor>u\<rfloor> \<le> u" "u < real_of_int \<lfloor>u\<rfloor> + 1"
       "real_of_int \<lfloor>v\<rfloor> \<le> v" "v < real_of_int \<lfloor>v\<rfloor> + 1"
    by linarith+
  moreover have "real_of_int \<lfloor>u\<rfloor> - real_of_int \<lfloor>v\<rfloor> \<le> 1"
    "real_of_int \<lfloor>v\<rfloor> - real_of_int \<lfloor>u\<rfloor> \<le> 1"
    using assms by linarith+
  ultimately show ?thesis by linarith
qed

lemma cell_near:
  fixes cs :: real
  assumes "0 < cs" and "\<bar>u - v\<bar> \<le> cs"
  shows "\<bar>\<lfloor>u / cs\<rfloor> - \<lfloor>v / cs\<rfloor>\<bar> \<le> 1"
proof -
  have "\<bar>u / cs - v / cs\<bar> = \<bar>u - v\<bar> / cs"
    using assms(1) by (simp add: diff_divide_distrib [symmetric])
  also have "\<dots> \<le> 1" using assms by simp
  finally show ?thesis by (rule floor_near)
qed

lemma cell_far:
  fixes cs :: real
  assumes "0 < cs" and "\<bar>\<lfloor>u / cs\<rfloor> - \<lfloor>v / cs\<rfloor>\<bar> \<le> 1"
  shows "\<bar>u - v\<bar> < 2 * cs"
proof -
  have "\<bar>u / cs - v / cs\<bar> < 2" using assms(2) by (rule floor_far)
  moreover have "\<bar>u / cs - v / cs\<bar> = \<bar>u - v\<bar> / cs"
    using assms(1) by (simp add: diff_divide_distrib [symmetric])
  ultimately show ?thesis using assms(1) by (simp add: pos_divide_less_eq)
qed

lemma square_less_120:
  fixes d :: real
  assumes "d * d < 120 * 120"
  shows "\<bar>d\<bar> < 120"
proof -
  from assms have "\<bar>d\<bar> ^ 2 < 120 ^ 2"
    by (simp add: power2_eq_square)
  then show ?thesis
    by (rule power2_less_imp_less) simp
qed

lemma distSq_near:
  assumes "distSq p q < maxDistSq"
  shows "\<bar>x_p p - x_p q\<bar> < 120 \<and> \<bar>y_p p - y_p q\<bar> < 120"
proof -
  let ?dx = "x_p p - x_p q" and ?dy = "y_p p - y_p q"
  from assms have s: "?dx * ?dx + ?dy * ?dy < 120 * 120"
    by (simp add: distSq_def maxDistSq_def Let_def)
  have "0 \<le> ?dx * ?dx" "0 \<le> ?dy * ?dy" by simp_all
  with s have "?dx * ?dx < 120 * 120" "?dy * ?dy < 120 * 120" by linarith+
  then show ?thesis
    by (simp add: square_less_120)
qed

section \<open>The neighbour query on a fresh grid\<close>

lemma nearbyParticles_fresh:
  assumes "cs \<noteq> 0"
  shows "nearbyParticles \<lparr> cells = buildGrid ps cs, cellSize = cs \<rparr> p =
         concat (map (\<lambda>key. filter (\<lambda>i. keyOf cs (ps ! i) = key) [0..<length ps])
                   (getNearbyCells (Inr \<lfloor>x_p p / cs\<rfloor>) (Inr \<lfloor>y_p p / cs\<rfloor>)))"
proof -
  have "nearbyParticles \<lparr> cells = buildGrid ps cs, cellSize = cs \<rparr> p =
        concat (map (bucketOf (buildGrid ps cs))
                  (getNearbyCells (Inr \<lfloor>x_p p / cs\<rfloor>) (Inr \<lfloor>y_p p / cs\<rfloor>)))"
    using assms by (simp add: nearbyParticles_def fdiv_def bucketOf_def [abs_def] Let_def)
  also have "bucketOf (buildGrid ps cs) =
      (\<lambda>key. filter (\<lambda>i. keyOf cs (ps ! i) = key) [0..<length ps])"
    by (rule ext) (rule bucketOf_buildGrid)
  finally show ?thesis .
qed

lemma set_nearbyParticles_fresh:
  assumes "cs \<noteq> 0"
  shows "set (nearbyParticles \<lparr> cells = buildGrid ps cs, cellSize = cs \<rparr> p) =
         {j. j < length ps \<and> \<bar>\<lfloor>x_p (ps ! j) / cs\<rfloor> - \<lfloor>x_p p / cs\<rfloor>\<bar> \<le> 1
                          \<and> \<bar>\<lfloor>y_p (ps ! j) / cs\<rfloor> - \<lfloor>y_p p / cs\<rfloor>\<bar> \<le> 1}"
  using assms
  by (auto simp: nearbyParticles_fresh keyOf_nonzero mem_getNearbyCells)

lemma distinct_nearbyParticles_fresh:
  assumes "cs \<noteq> 0"
  shows "distinct (nearbyParticles \<lparr> cells = buildGrid ps cs, cellSize = cs \<rparr> p)"
  using assms
  by (simp add: nearbyParticles_fresh distinct_concat_filter distinct_getNearbyCells)

text \<open>
  C2: on a grid built from the particles' current positions, with a positive cell size,
  the neighbour query for the particle at index \<open>i\<close> returns a sequence that contains \<open>i\<close>
  itself, has no duplicates, contains every particle within \<open>cellSize\<close> of it on both
  axes, and contains only particles of the array that are less than \<open>2 * cellSize\<close> away
  on each axis.
\<close>

theorem neighbours_of_fresh_grid:
  assumes "0 < cs" and "i < length ps"
  shows "i \<in> set (nearbyParticles \<lparr> cells = buildGrid ps cs, cellSize = cs \<rparr> (ps ! i)) \<and>
         distinct (nearbyParticles \<lparr> cells = buildGrid ps cs, cellSize = cs \<rparr> (ps ! i)) \<and>
         (\<forall>j < length ps.
            \<bar>x_p (ps ! j) - x_p (ps ! i)\<bar> \<le> cs \<and> \<bar>y_p (ps ! j) - y_p (ps ! i)\<bar> \<le> cs \<longrightarrow>
            j \<in> set (nearbyParticles \<lparr> cells = buildGrid ps cs, cellSize = cs \<rparr> (ps ! i))) \<and>
         (\<forall>j \<in> set (nearbyParticles \<lparr> cells = buildGrid ps cs, cellSize = cs \<rparr> (ps ! i)).
            j < length ps \<and>
            \<bar>x_p (ps ! j) - x_p (ps ! i)\<bar> < 2 * cs \<and> \<bar>y_p (ps ! j) - y_p (ps ! i)\<bar> < 2 * cs)"
proof -
  from assms(1) have nz: "cs \<noteq> 0" by simp
  note mem = set_nearbyParticles_fresh [OF nz, of ps "ps ! i"]
  have self: "i \<in> set (nearbyParticles \<lparr> cells = buildGrid ps cs, cellSize = cs \<rparr> (ps ! i))"
    using assms(2) by (simp add: mem)
  have near: "\<forall>j < length ps.
            \<bar>x_p (ps ! j) - x_p (ps ! i)\<bar> \<le> cs \<and> \<bar>y_p (ps ! j) - y_p (ps ! i)\<bar> \<le> cs \<longrightarrow>
            j \<in> set (nearbyParticles \<lparr> cells = buildGrid ps cs, cellSize = cs \<rparr> (ps ! i))"
    using assms(1) by (simp add: mem cell_near)
  have far: "\<forall>j \<in> set (nearbyParticles \<lparr> cells = buildGrid ps cs, cellSize = cs \<rparr> (ps ! i)).
            j < length ps \<and>
            \<bar>x_p (ps ! j) - x_p (ps ! i)\<bar> < 2 * cs \<and> \<bar>y_p (ps ! j) - y_p (ps ! i)\<bar> < 2 * cs"
    using assms(1) by (simp add: mem cell_far)
  from self distinct_nearbyParticles_fresh [OF nz] near far show ?thesis by blast
qed

text \<open>
  Two particles 90 units apart, cell size 150: the query for the first returns exactly
  the two of them.
\<close>

theorem neighbours_of_fresh_grid_witness:
  "(0::real) < 150 \<and>
   0 < length [\<lparr> x_p = 10, y_p = 10, size_p = 1, speedX = 0, speedY = 0,
                 color = ''rgba(6, 182, 212, '', opacity = 0.3, opacityDirection = 1 \<rparr>,
               \<lparr> x_p = 100, y_p = 10, size_p = 1, speedX = 0, speedY = 0,
                 color = ''rgba(6, 182, 212, '', opacity = 0.3, opacityDirection = 1 \<rparr>] \<and>
   set (nearbyParticles
         \<lparr> cells = buildGrid
             [\<lparr> x_p = 10, y_p = 10, size_p = 1, speedX = 0, speedY = 0,
                color = ''rgba(6, 182, 212, '', opacity = 0.3, opacityDirection = 1 \<rparr>,
              \<lparr> x_p = 100, y_p = 10, size_p = 1, speedX = 0, speedY = 0,
                color = ''rgba(6, 182, 212, '', opacity = 0.3, opacityDirection = 1 \<rparr>] 150,
           cellSize = 150 \<rparr>
         \<lparr> x_p = 10, y_p = 10, size_p = 1, speedX = 0, speedY = 0,
           color = ''rgba(6, 182, 212, '', opacity = 0.3, opacityDirection = 1 \<rparr>) = {0, 1}"
proof -
  define a where "a = \<lparr> x_p = 10, y_p = 10, size_p = 1, speedX = 0, speedY = 0,
                 color = ''rgba(6, 182, 212, '', opacity = 0.3, opacityDirection = 1 \<rparr>"
  define b where "b = \<lparr> x_p = 100, y_p = 10, size_p = 1, speedX = 0, speedY = 0,
                 color = ''rgba(6, 182, 212, '', opacity = 0.3, opacityDirection = 1 \<rparr>"
  let ?nb = "nearbyParticles \<lparr> cells = buildGrid [a, b] 150, cellSize = 150 \<rparr> a"
  have h1: "(0::real) < 150" by simp
  have h2: "0 < length [a, b]" by simp
  have t: "0 \<in> set ?nb \<and> distinct ?nb \<and>
      (\<forall>j < length [a, b].
            \<bar>x_p ([a, b] ! j) - x_p a\<bar> \<le> 150 \<and> \<bar>y_p ([a, b] ! j) - y_p a\<bar> \<le> 150 \<longrightarrow>
            j \<in> set ?nb) \<and>
      (\<forall>j \<in> set ?nb. j < length [a, b] \<and>
            \<bar>x_p ([a, b] ! j) - x_p a\<bar> < 2 * 150 \<and> \<bar>y_p ([a, b] ! j) - y_p a\<bar> < 2 * 150)"
    using neighbours_of_fresh_grid [OF h1 h2] by simp
  from t have "0 \<in> set ?nb" by blast
  moreover from t have "1 < length [a, b] \<and>
       \<bar>x_p ([a, b] ! 1) - x_p a\<bar> \<le> 150 \<and> \<bar>y_p ([a, b] ! 1) - y_p a\<bar> \<le> 150 \<longrightarrow> 1 \<in> set ?nb"
    by blast
  then have "1 \<in> set ?nb" by (simp add: a_def b_def)
  moreover from t have "\<forall>j \<in> set ?nb. j < 2" by auto
  ultimately have "set ?nb = {0, 1}" by (auto simp: less_2_cases_iff)
  with h1 h2 show ?thesis
    unfolding a_def b_def by blast
qed

section \<open>Grid pass and all-pairs pass\<close>

lemma set_connectionsOf:
  "set (connectionsOf ps g i) =
   {(i, j) | j. j \<in> set (nearbyParticles g (ps ! i)) \<and> j \<noteq> i \<and>
                distSq (ps ! i) (ps ! j) < maxDistSq}"
  by (auto simp: connectionsOf_def Let_def)

lemma set_connectionPass:
  "set (connectionPass ps g) =
   {(i, j) | i j. i < length ps \<and> j \<in> set (nearbyParticles g (ps ! i)) \<and> j \<noteq> i \<and>
                  distSq (ps ! i) (ps ! j) < maxDistSq}"
  by (auto simp: connectionPass_def set_connectionsOf)

lemma set_bruteForceConnections:
  "set (bruteForceConnections ps) =
   {(i, j) | i j. i < length ps \<and> j < length ps \<and> j \<noteq> i \<and>
                  distSq (ps ! i) (ps ! j) < maxDistSq}"
  by (auto simp: bruteForceConnections_def)

text \<open>The threshold 120 is below the cell size 150: a particle in range is in a nearby cell.\<close>

lemma close_in_nearbyParticles:
  assumes "j < length ps" and "distSq p (ps ! j) < maxDistSq"
  shows "j \<in> set (nearbyParticles \<lparr> cells = buildGrid ps 150, cellSize = 150 \<rparr> p)"
proof -
  from distSq_near [OF assms(2)]
  have "\<bar>x_p (ps ! j) - x_p p\<bar> \<le> 150" "\<bar>y_p (ps ! j) - y_p p\<bar> \<le> 150"
    by linarith+
  then have "\<bar>\<lfloor>x_p (ps ! j) / 150\<rfloor> - \<lfloor>x_p p / 150\<rfloor>\<bar> \<le> 1"
    "\<bar>\<lfloor>y_p (ps ! j) / 150\<rfloor> - \<lfloor>y_p p / 150\<rfloor>\<bar> \<le> 1"
    by (simp_all add: cell_near)
  with assms(1) show ?thesis
    by (simp add: set_nearbyParticles_fresh)
qed

lemma distinct_pairs:
  "distinct is \<Longrightarrow> (\<And>i. distinct (f i)) \<Longrightarrow>
   distinct (concat (map (\<lambda>i. map (Pair i) (f i)) is))"
  by (induction "is") (auto simp: distinct_map inj_on_def)

lemma distinct_connectionPass_fresh:
  "distinct (connectionPass ps \<lparr> cells = buildGrid ps 150, cellSize = 150 \<rparr>)"
proof -
  have "connectionPass ps \<lparr> cells = buildGrid ps 150, cellSize = 150 \<rparr> =
        concat (map (\<lambda>i. map (Pair i)
           (filter (\<lambda>other. other \<noteq> i \<and> distSq (ps ! i) (ps ! other) < maxDistSq)
              (nearbyParticles \<lparr> cells = buildGrid ps 150, cellSize = 150 \<rparr> (ps ! i))))
           [0..<length ps])"
    by (simp add: connectionPass_def connectionsOf_def [abs_def] Let_def)
  moreover have "distinct \<dots>"
    by (rule distinct_pairs) (simp_all add: distinct_nearbyParticles_fresh)
  ultimately show ?thesis by simp
qed

lemma distinct_bruteForceConnections: "distinct (bruteForceConnections ps)"
  unfolding bruteForceConnections_def by (rule distinct_pairs) simp_all

text \<open>The all-pairs check meets every pair of the one-per-pair loop from both ends.\<close>

lemma distSq_commute: "distSq p q = distSq q p"
  by (simp add: distSq_def Let_def power2_commute [of "x_p p" "x_p q", unfolded power2_eq_square]
      power2_commute [of "y_p p" "y_p q", unfolded power2_eq_square])

lemma sqrt_less_120: "sqrt d < 120 \<longleftrightarrow> d < 120 * 120"
proof -
  have "sqrt (120 * 120) = (120::real)" by simp
  then show ?thesis by (metis real_sqrt_less_iff)
qed

lemma mem_pairs:
  "(i, j) \<in> set (concat (map (\<lambda>i. map (Pair i) (f i)) is)) \<longleftrightarrow>
   i \<in> set is \<and> j \<in> set (f i)"
  by (induction "is") auto

lemma mem_naiveConnections:
  "(i, j) \<in> set (naiveConnections ps) \<longleftrightarrow>
   i < j \<and> j < length ps \<and> distSq (ps ! i) (ps ! j) < maxDistSq"
  unfolding naiveConnections_def mem_pairs
  by (auto simp: Let_def sqrt_less_120 distSq_def maxDistSq_def)

lemma set_naiveConnections:
  "set (naiveConnections ps) =
   {(i, j) | i j. i < j \<and> j < length ps \<and> distSq (ps ! i) (ps ! j) < maxDistSq}"
  by (auto simp: mem_naiveConnections)

lemma distinct_naiveConnections: "distinct (naiveConnections ps)"
  unfolding naiveConnections_def by (rule distinct_pairs) simp_all

lemma set_bruteForce_naive:
  "set (bruteForceConnections ps) =
   set (naiveConnections ps) \<union> (set (naiveConnections ps))\<inverse>"
  unfolding set_bruteForceConnections set_naiveConnections
  by (auto simp: distSq_commute [of "ps ! _" "ps ! _"])

lemma length_bruteForce_naive:
  "length (bruteForceConnections ps) = 2 * length (naiveConnections ps)"
proof -
  let ?U = "set (naiveConnections ps)"
  have disj: "?U \<inter> ?U\<inverse> = {}"
    by (auto simp: set_naiveConnections)
  have "length (bruteForceConnections ps) = card (set (bruteForceConnections ps))"
    by (simp add: distinct_card distinct_bruteForceConnections)
  also have "\<dots> = card (?U \<union> ?U\<inverse>)"
    by (simp only: set_bruteForce_naive)
  also have "\<dots> = card ?U + card (?U\<inverse>)"
    using disj by (intro card_Un_disjoint) simp_all
  also have "card (?U\<inverse>) = card ?U"
    by (rule card_inverse)
  also have "card ?U = length (naiveConnections ps)"
    by (simp add: distinct_card distinct_naiveConnections)
  finally show ?thesis by simp
qed

lemma lineOf_bruteForce_naive:
  "lineOf ` set (bruteForceConnections ps) = lineOf ` set (naiveConnections ps)"
proof -
  have "lineOf ` (R\<inverse>) = lineOf ` R" for R :: "(nat \<times> nat) set"
    by (auto simp: lineOf_def image_iff insert_commute) force+
  then show ?thesis
    by (simp add: set_bruteForce_naive image_Un)
qed

text \<open>
  C1: for every arrangement of particles, with the grid of \<open>gridRef\<close> (cell size 150)
  rebuilt from the particles' current positions, the connection pass strokes exactly the
  lines of the all-pairs check with the same threshold on the squared distance, and as
  many of them. They are the lines of the one-per-pair loop, each stroked twice, once
  from either end.
\<close>

theorem grid_pass_equals_all_pairs:
  "set (connectionPass ps (gridRef_init\<lparr> cells := buildGrid ps (cellSize gridRef_init) \<rparr>)) =
     set (bruteForceConnections ps) \<and>
   length (connectionPass ps (gridRef_init\<lparr> cells := buildGrid ps (cellSize gridRef_init) \<rparr>)) =
     length (bruteForceConnections ps) \<and>
   lineOf ` set (connectionPass ps
                  (gridRef_init\<lparr> cells := buildGrid ps (cellSize gridRef_init) \<rparr>)) =
     lineOf ` set (naiveConnections ps) \<and>
   length (connectionPass ps (gridRef_init\<lparr> cells := buildGrid ps (cellSize gridRef_init) \<rparr>)) =
     2 * length (naiveConnections ps)"
proof -
  let ?g = "\<lparr> cells = buildGrid ps 150, cellSize = 150 \<rparr>"
  have g: "gridRef_init\<lparr> cells := buildGrid ps (cellSize gridRef_init) \<rparr> = ?g"
    by (simp add: gridRef_init_def)
  have sets: "set (connectionPass ps ?g) = set (bruteForceConnections ps)"
  proof -
    have "j \<in> set (nearbyParticles ?g (ps ! i)) \<Longrightarrow> j < length ps" for i j
      by (simp add: set_nearbyParticles_fresh)
    moreover have "j < length ps \<Longrightarrow> distSq (ps ! i) (ps ! j) < maxDistSq \<Longrightarrow>
          j \<in> set (nearbyParticles ?g (ps ! i))" for i j
      by (rule close_in_nearbyParticles)
    ultimately show ?thesis
      unfolding set_connectionPass set_bruteForceConnections by blast
  qed
  have "length (connectionPass ps ?g) = card (set (connectionPass ps ?g))"
    by (simp add: distinct_card distinct_connectionPass_fresh)
  also have "\<dots> = card (set (bruteForceConnections ps))"
    by (simp only: sets)
  also have "\<dots> = length (bruteForceConnections ps)"
    by (simp add: distinct_card distinct_bruteForceConnections)
  finally have len: "length (connectionPass ps ?g) = length (bruteForceConnections ps)" .
  have lines: "lineOf ` set (connectionPass ps ?g) = lineOf ` set (naiveConnections ps)"
    by (simp only: sets lineOf_bruteForce_naive)
  have twice: "length (connectionPass ps ?g) = 2 * length (naiveConnections ps)"
    by (simp only: len length_bruteForce_naive)
  from sets len lines twice show ?thesis
    by (simp only: g)
qed

text \<open>
  C10: whatever the particles and the grid, the connection pass strokes no line from a
  particle to itself.
\<close>

theorem no_self_connection: "(i, i) \<notin> set (connectionPass ps g)"
  by (simp add: set_connectionPass)

section \<open>Rounding\<close>

lemma ulp_pos: "0 < ulp x"
  by (simp add: ulp_def)

lemma roundEven_near: "\<bar>real_of_int (roundEven y) - y\<bar> \<le> 1 / 2"
  unfolding roundEven_def Let_def by (auto simp: abs_le_iff)

lemma roundEven_unique:
  assumes "\<bar>y - real_of_int m\<bar> < 1 / 2"
  shows "roundEven y = m"
proof -
  from assms have "real_of_int m - 1 \<le> y" and "y < real_of_int m + 1"
    by linarith+
  then have "real_of_int (m - 1) \<le> y" and "y < real_of_int (m + 1)"
    by simp_all
  then have "m - 1 \<le> \<lfloor>y\<rfloor>" and "\<lfloor>y\<rfloor> < m + 1"
    by (simp_all only: le_floor_iff floor_less_iff)
  then have "\<lfloor>y\<rfloor> = m \<or> \<lfloor>y\<rfloor> = m - 1"
    by linarith
  then show ?thesis
  proof
    assume f: "\<lfloor>y\<rfloor> = m"
    with assms have "y - real_of_int \<lfloor>y\<rfloor> < 1 / 2" by linarith
    with f show ?thesis by (simp add: roundEven_def Let_def)
  next
    assume f: "\<lfloor>y\<rfloor> = m - 1"
    from assms have "real_of_int m - 1 / 2 < y" by linarith
    with f have "1 / 2 < y - real_of_int \<lfloor>y\<rfloor>" by simp
    with f show ?thesis by (simp add: roundEven_def Let_def)
  qed
qed

lemma binade_bounds:
  assumes "x \<noteq> 0"
  shows "2 ^ 52 * ulp x \<le> \<bar>x\<bar>" and "\<bar>x\<bar> < 2 ^ 53 * ulp x"
proof -
  let ?e = "\<lfloor>log 2 \<bar>x\<bar>\<rfloor>"
  from assms have pos: "0 < \<bar>x\<bar>" by simp
  have "real_of_int ?e \<le> log 2 \<bar>x\<bar>" by linarith
  then have "2 powr real_of_int ?e \<le> 2 powr log 2 \<bar>x\<bar>" by simp
  with pos have lo: "2 powr real_of_int ?e \<le> \<bar>x\<bar>" by simp
  have "log 2 \<bar>x\<bar> < real_of_int ?e + 1" by linarith
  then have "2 powr log 2 \<bar>x\<bar> < 2 powr (real_of_int ?e + 1)" by simp
  with pos have hi: "\<bar>x\<bar> < 2 powr (real_of_int ?e + 1)" by simp
  have u: "ulp x = 2 powr real_of_int ?e / 2 ^ 52"
    by (simp add: ulp_def powr_diff)
  from lo show "2 ^ 52 * ulp x \<le> \<bar>x\<bar>" by (simp add: u)
  from hi show "\<bar>x\<bar> < 2 ^ 53 * ulp x" by (simp add: u powr_add)
qed

lemma rnd_error: "\<bar>rnd x - x\<bar> \<le> \<bar>x\<bar> / 2 ^ 53"
proof (cases "x = 0")
  case True
  then show ?thesis by (simp add: rnd_def)
next
  case False
  let ?q = "ulp x"
  have q: "0 < ?q" by (rule ulp_pos)
  have "rnd x - x = (real_of_int (roundEven (x / ?q)) - x / ?q) * ?q"
    using False q by (simp add: rnd_def algebra_simps)
  then have "\<bar>rnd x - x\<bar> = \<bar>real_of_int (roundEven (x / ?q)) - x / ?q\<bar> * ?q"
    using q by (simp add: abs_mult)
  also have "\<dots> \<le> 1 / 2 * ?q"
    using q roundEven_near [of "x / ?q"] by (intro mult_right_mono) simp_all
  also have "\<dots> \<le> \<bar>x\<bar> / 2 ^ 53"
    using binade_bounds(1) [OF False] by simp
  finally show ?thesis .
qed

lemma ulp_eqI:
  assumes "2 ^ 52 * 2 powr real_of_int k \<le> \<bar>x\<bar>" and "\<bar>x\<bar> < 2 ^ 53 * 2 powr real_of_int k"
  shows "ulp x = 2 powr real_of_int k"
proof -
  have p52: "(2::real) ^ 52 = 2 powr real_of_int 52" and p53: "(2::real) ^ 53 = 2 powr real_of_int 53"
    by (simp_all add: powr_numeral)
  from assms(1) have pos: "0 < \<bar>x\<bar>"
    by (smt (verit) powr_gt_zero zero_less_power mult_pos_pos)
  have "2 powr real_of_int (52 + k) = 2 ^ 52 * 2 powr real_of_int k"
    "2 powr real_of_int (53 + k) = 2 ^ 53 * 2 powr real_of_int k"
    by (simp_all add: powr_add)
  with assms have "2 powr real_of_int (52 + k) \<le> \<bar>x\<bar>" "\<bar>x\<bar> < 2 powr real_of_int (53 + k)"
    by simp_all
  then have "2 powr real_of_int (52 + k) \<le> 2 powr log 2 \<bar>x\<bar>"
    "2 powr log 2 \<bar>x\<bar> < 2 powr real_of_int (53 + k)"
    using pos by simp_all
  then have "real_of_int (52 + k) \<le> log 2 \<bar>x\<bar>" "log 2 \<bar>x\<bar> < real_of_int (53 + k)"
    by (simp_all del: of_int_add)
  then have "\<lfloor>log 2 \<bar>x\<bar>\<rfloor> = 52 + k"
    by (intro floor_unique) simp_all
  then show ?thesis by (simp add: ulp_def)
qed

lemma rnd_eqI:
  assumes "0 < q" and "q = 2 powr real_of_int k"
    and "2 ^ 52 * q \<le> \<bar>x\<bar>" and "\<bar>x\<bar> < 2 ^ 53 * q"
    and "\<bar>x / q - real_of_int m\<bar> < 1 / 2"
    and "v = real_of_int m * q"
  shows "rnd x = v"
proof -
  from assms(1,3) have nz: "x \<noteq> 0"
    by (smt (verit) mult_pos_pos zero_less_power abs_zero)
  have u: "ulp x = q"
    using assms(2-4) by (simp add: ulp_eqI)
  from assms(5) have "roundEven (x / q) = m" by (rule roundEven_unique)
  with nz u assms(6) show ?thesis by (simp add: rnd_def)
qed

lemma rnd_eqI_neg:
  assumes "v = real_of_int m / 2 ^ n"
    and "2 ^ 52 \<le> \<bar>x\<bar> * 2 ^ n" and "\<bar>x\<bar> * 2 ^ n < 2 ^ 53"
    and "\<bar>x * 2 ^ n - real_of_int m\<bar> < 1 / 2"
  shows "rnd x = v"
proof (rule rnd_eqI [where q = "1 / 2 ^ n" and k = "- int n" and m = m])
  show "(1::real) / 2 ^ n = 2 powr real_of_int (- int n)"
    by (simp add: powr_minus powr_realpow divide_simps)
qed (use assms in \<open>simp_all add: divide_simps mult.commute\<close>)

lemma rnd_0: "rnd 0 = 0"
  by (simp add: rnd_def)


lemma rnd_sqrt_eqI_neg:
  assumes "v = real_of_int m / 2 ^ n" and "0 < m"
    and "(2 ^ 52)\<^sup>2 \<le> c * (2 ^ n)\<^sup>2" and "c * (2 ^ n)\<^sup>2 < (2 ^ 53)\<^sup>2"
    and "(2 * real_of_int m - 1)\<^sup>2 < 4 * (c * (2 ^ n)\<^sup>2)"
    and "4 * (c * (2 ^ n)\<^sup>2) < (2 * real_of_int m + 1)\<^sup>2"
  shows "rnd (sqrt c) = v"
proof (rule rnd_eqI_neg [OF assms(1)])
  let ?y = "sqrt c * 2 ^ n"
  have y: "?y = sqrt (c * (2 ^ n)\<^sup>2)"
    by (simp add: real_sqrt_mult)
  have c: "0 \<le> c * (2 ^ n)\<^sup>2"
    using assms(3) by (smt (verit) zero_le_power2)
  then have c0: "0 \<le> c"
    by (simp add: zero_le_mult_iff)
  then have a: "\<bar>sqrt c\<bar> = sqrt c" by simp
  have "sqrt ((2 ^ 52)\<^sup>2) \<le> ?y" unfolding y using assms(3) by (simp only: real_sqrt_le_iff)
  then show "2 ^ 52 \<le> \<bar>sqrt c\<bar> * 2 ^ n" by (simp add: a)
  have "?y < sqrt ((2 ^ 53)\<^sup>2)" unfolding y using assms(4) by (simp only: real_sqrt_less_iff)
  then show "\<bar>sqrt c\<bar> * 2 ^ n < 2 ^ 53" by (simp add: a)
  from assms(2) have m: "0 \<le> 2 * real_of_int m - 1" "0 \<le> 2 * real_of_int m + 1" by simp_all
  have four: "sqrt (4 * (c * (2 ^ n)\<^sup>2)) = 2 * ?y"
    by (simp add: real_sqrt_mult)
  have "sqrt ((2 * real_of_int m - 1)\<^sup>2) < sqrt (4 * (c * (2 ^ n)\<^sup>2))"
    using assms(5) by (simp only: real_sqrt_less_iff)
  then have lo: "2 * real_of_int m - 1 < 2 * ?y"
    unfolding four using m(1) by simp
  have "sqrt (4 * (c * (2 ^ n)\<^sup>2)) < sqrt ((2 * real_of_int m + 1)\<^sup>2)"
    using assms(6) by (simp only: real_sqrt_less_iff)
  then have hi: "2 * ?y < 2 * real_of_int m + 1"
    unfolding four using m(2) by simp
  from lo hi show "\<bar>?y - real_of_int m\<bar> < 1 / 2" by linarith
qed

lemma roundEven_tie:
  assumes "\<bar>y - real_of_int m\<bar> = 1 / 2" and "even m"
  shows "roundEven y = m"
proof -
  from assms(1) have "y = real_of_int m + 1 / 2 \<or> y = real_of_int m - 1 / 2"
    by linarith
  then show ?thesis
  proof
    assume y: "y = real_of_int m + 1 / 2"
    have "\<lfloor>y\<rfloor> = m" unfolding y by (rule floor_unique) simp_all
    with y assms(2) show ?thesis by (simp add: roundEven_def Let_def)
  next
    assume y: "y = real_of_int m - 1 / 2"
    have "\<lfloor>y\<rfloor> = m - 1" unfolding y by (rule floor_unique) simp_all
    with y assms(2) show ?thesis by (simp add: roundEven_def Let_def)
  qed
qed

lemma rnd_tieI:
  assumes "0 < q" and "q = 2 powr real_of_int k"
    and "2 ^ 52 * q \<le> \<bar>x\<bar>" and "\<bar>x\<bar> < 2 ^ 53 * q"
    and "\<bar>x / q - real_of_int m\<bar> = 1 / 2" and "even m"
    and "v = real_of_int m * q"
  shows "rnd x = v"
proof -
  from assms(1,3) have nz: "x \<noteq> 0"
    by (smt (verit) mult_pos_pos zero_less_power abs_zero)
  have u: "ulp x = q"
    using assms(2-4) by (simp add: ulp_eqI)
  from assms(5,6) have "roundEven (x / q) = m" by (rule roundEven_tie)
  with nz u assms(7) show ?thesis by (simp add: rnd_def)
qed

lemma rnd_tieI_neg:
  assumes "v = real_of_int m / 2 ^ n"
    and "2 ^ 52 \<le> \<bar>x\<bar> * 2 ^ n" and "\<bar>x\<bar> * 2 ^ n < 2 ^ 53"
    and "\<bar>x * 2 ^ n - real_of_int m\<bar> = 1 / 2" and "even m"
  shows "rnd x = v"
proof (rule rnd_tieI [where q = "1 / 2 ^ n" and k = "- int n" and m = m])
  show "(1::real) / 2 ^ n = 2 powr real_of_int (- int n)"
    by (simp add: powr_minus powr_realpow divide_simps)
qed (use assms in \<open>simp_all add: divide_simps mult.commute\<close>)


section \<open>Speed limit\<close>

text \<open>How the limiter and the force compute, one rounded operation after the other.\<close>

lemma computedSpeedI:
  assumes "speedX p = sx" and "speedY p = sy"
    and "rnd (sx * sx) = a" and "rnd (sy * sy) = b" and "rnd (a + b) = c" and "rnd (sqrt c) = s"
  shows "computedSpeed p = s"
  using assms by (simp add: computedSpeed_def)

lemma limitSpeed_fastI:
  assumes "speedX p = sx" and "speedY p = sy"
    and "rnd (sx * sx) = a" and "rnd (sy * sy) = b" and "rnd (a + b) = c" and "rnd (sqrt c) = s"
    and "3 / 2 < s"
    and "rnd (sx / s) = qx" and "rnd (qx * (3 / 2)) = wx"
    and "rnd (sy / s) = qy" and "rnd (qy * (3 / 2)) = wy"
  shows "limitSpeed p = Inr (p\<lparr> speedX := wx, speedY := wy \<rparr>)"
proof -
  have s: "computedSpeed p = s"
    using assms(1-6) by (rule computedSpeedI)
  from assms(7) have "s \<noteq> 0" by simp
  with assms show ?thesis
    by (simp add: limitSpeed_def s maxSpeed_def fdiv_def Let_def)
qed

lemma mouseForce_insideI:
  assumes "x_p p = px" and "y_p p = py" and "speedX p = vx" and "speedY p = vy"
    and "rnd (mouseX - px) = dx" and "rnd (mouseY - py) = dy"
    and "rnd (dx * dx) = a" and "rnd (dy * dy) = b" and "rnd (a + b) = c" and "rnd (sqrt c) = d"
    and "d < 100"
    and "rnd (100 - d) = t" and "rnd (t / 100) = f" and "rnd (5 / 1000) = k"
    and "rnd (dx * f) = ex" and "rnd (ex * k) = ix" and "rnd (vx + ix) = sx"
    and "rnd (dy * f) = ey" and "rnd (ey * k) = iy" and "rnd (vy + iy) = sy"
  shows "mouseForce mouseX mouseY p = limitSpeed (p\<lparr> speedX := sx, speedY := sy \<rparr>)"
  using assms by (simp add: mouseForce_def interactionRadius_def Let_def)

text \<open>
  A pointer at (36, 69) and a particle at (10, 10) with velocity (-0.609375, 1.359375):
  the force, and then the limiter once more on the particle it leaves.
\<close>

lemma force_step_example:
  "mouseForce 36 69
    \<lparr> x_p = 10, y_p = 10, size_p = 1, speedX = - 39 / 2 ^ 6, speedY = 87 / 2 ^ 6,
      color = ''rgba(6, 182, 212, '', opacity = 0.3, opacityDirection = 1 \<rparr> =
   Inr \<lparr> x_p = 10, y_p = 10, size_p = 1, speedX = - 303153516413419 / 2 ^ 49,
      speedY = 1576263186291627 / 2 ^ 50,
      color = ''rgba(6, 182, 212, '', opacity = 0.3, opacityDirection = 1 \<rparr>"
proof -
  have r1: "rnd (36 - 10) = 26"
    by (rule rnd_eqI_neg [where m = 7318349394477056 and n = 48]) simp_all
  have r2: "rnd (69 - 10) = 59"
    by (rule rnd_eqI_neg [where m = 8303511812964352 and n = 47]) simp_all
  have r3: "rnd (26 * 26) = 676"
    by (rule rnd_eqI_neg [where m = 5946158883012608 and n = 43]) simp_all
  have r4: "rnd (59 * 59) = 3481"
    by (rule rnd_eqI_neg [where m = 7654799952576512 and n = 41]) simp_all
  have r5: "rnd (676 + 3481) = 4157"
    by (rule rnd_eqI_neg [where m = 4570669836664832 and n = 40]) simp_all
  have r6: "rnd (sqrt 4157) = 2268505398562967 / 2 ^ 45"
    by (rule rnd_sqrt_eqI_neg [where m = 4537010797125934 and n = 46]) simp_all
  have r7: "rnd (100 - (2268505398562967 / 2 ^ 45)) = 1249931810320233 / 2 ^ 45"
    by (rule rnd_eqI_neg [where m = 4999727241280932 and n = 47]) simp_all
  have r8: "rnd ((1249931810320233 / 2 ^ 45) / 100) = 6399650868839593 / 2 ^ 54"
    by (rule rnd_eqI_neg [where m = 6399650868839593 and n = 54]) simp_all
  have r9: "rnd (5 / 1000) = 5764607523034235 / 2 ^ 60"
    by (rule rnd_eqI_neg [where m = 5764607523034235 and n = 60]) simp_all
  have r10: "rnd (26 * (6399650868839593 / 2 ^ 54)) = 5199716330932169 / 2 ^ 49"
    by (rule rnd_eqI_neg [where m = 5199716330932169 and n = 49]) simp_all
  have r11: "rnd ((5199716330932169 / 2 ^ 49) * (5764607523034235 / 2 ^ 60)) =
      831954612949147 / 2 ^ 54"
    by (rule rnd_eqI_neg [where m = 6655636903593176 and n = 57]) simp_all
  have r12: "rnd ((- 39 / 2 ^ 6) + (831954612949147 / 2 ^ 54)) = - 2536392369691609 / 2 ^ 52"
    by (rule rnd_tieI_neg [where m = "- 5072784739383218" and n = 53]) simp_all
  have r13: "rnd (59 * (6399650868839593 / 2 ^ 54)) = 1474919536177875 / 2 ^ 46"
    by (rule rnd_eqI_neg [where m = 5899678144711500 and n = 48]) simp_all
  have r14: "rnd ((1474919536177875 / 2 ^ 46) * (5764607523034235 / 2 ^ 60)) =
      58996781447115 / 2 ^ 49"
    by (rule rnd_eqI_neg [where m = 7551588025230720 and n = 56]) simp_all
  have r15: "rnd ((87 / 2 ^ 6) + (58996781447115 / 2 ^ 49)) = 824256874379211 / 2 ^ 49"
    by (rule rnd_eqI_neg [where m = 6594054995033688 and n = 52]) simp_all
  have r16: "rnd ((- 2536392369691609 / 2 ^ 52) * (- 2536392369691609 / 2 ^ 52)) =
      2856953008847281 / 2 ^ 53"
    by (rule rnd_eqI_neg [where m = 5713906017694562 and n = 54]) simp_all
  have r17: "rnd ((824256874379211 / 2 ^ 49) * (824256874379211 / 2 ^ 49)) =
      4827423047696203 / 2 ^ 51"
    by (rule rnd_eqI_neg [where m = 4827423047696203 and n = 51]) simp_all
  have r18: "rnd ((2856953008847281 / 2 ^ 53) + (4827423047696203 / 2 ^ 51)) =
      5541661299908023 / 2 ^ 51"
    by (rule rnd_eqI_neg [where m = 5541661299908023 and n = 51]) simp_all
  have r19: "rnd (sqrt (5541661299908023 / 2 ^ 51)) = 7065044057226999 / 2 ^ 52"
    by (rule rnd_sqrt_eqI_neg [where m = 7065044057226999 and n = 52]) simp_all
  have r20: "rnd ((- 2536392369691609 / 2 ^ 52) / (7065044057226999 / 2 ^ 52)) =
      - 3233637508409803 / 2 ^ 53"
    by (rule rnd_eqI_neg [where m = "- 6467275016819606" and n = 54]) simp_all
  have r21: "rnd ((- 3233637508409803 / 2 ^ 53) * (3 / 2)) = - 303153516413419 / 2 ^ 49"
    by (rule rnd_tieI_neg [where m = "- 4850456262614704" and n = 53]) simp_all
  have r22: "rnd ((824256874379211 / 2 ^ 49) / (7065044057226999 / 2 ^ 52)) =
      525421062097209 / 2 ^ 49"
    by (rule rnd_eqI_neg [where m = 8406736993555344 and n = 53]) simp_all
  have r23: "rnd ((525421062097209 / 2 ^ 49) * (3 / 2)) = 1576263186291627 / 2 ^ 50"
    by (rule rnd_eqI_neg [where m = 6305052745166508 and n = 52]) simp_all
  have inside: "(2268505398562967 / 2 ^ 45) < (100::real)" by simp
  have fast: "(3::real) / 2 < (7065044057226999 / 2 ^ 52)" by simp
  have "mouseForce 36 69
    \<lparr> x_p = 10, y_p = 10, size_p = 1, speedX = - 39 / 2 ^ 6, speedY = 87 / 2 ^ 6,
      color = ''rgba(6, 182, 212, '', opacity = 0.3, opacityDirection = 1 \<rparr> =
    limitSpeed (\<lparr> x_p = 10, y_p = 10, size_p = 1, speedX = - 39 / 2 ^ 6, speedY = 87 / 2 ^ 6,
      color = ''rgba(6, 182, 212, '', opacity = 0.3, opacityDirection = 1 \<rparr>
      \<lparr> speedX := - 2536392369691609 / 2 ^ 52, speedY := 824256874379211 / 2 ^ 49 \<rparr>)"
    by (rule mouseForce_insideI [OF _ _ _ _ r1 r2 r3 r4 r5 r6 inside r7 r8 r9 r10 r11 r12 r13 r14 r15]) simp_all
  also have "\<dots> = Inr \<lparr> x_p = 10, y_p = 10, size_p = 1, speedX = - 303153516413419 / 2 ^ 49,
      speedY = 1576263186291627 / 2 ^ 50,
      color = ''rgba(6, 182, 212, '', opacity = 0.3, opacityDirection = 1 \<rparr>"
    by (simp add: limitSpeed_fastI [OF _ _ r16 r17 r18 r19 fast r20 r21 r22 r23])
  finally show ?thesis .
qed

lemma limit_step_example:
  "limitSpeed
    \<lparr> x_p = 10, y_p = 10, size_p = 1, speedX = - 303153516413419 / 2 ^ 49,
      speedY = 1576263186291627 / 2 ^ 50,
      color = ''rgba(6, 182, 212, '', opacity = 0.3, opacityDirection = 1 \<rparr> =
   Inr \<lparr> x_p = 10, y_p = 10, size_p = 1, speedX = - 4850456262614703 / 2 ^ 53,
      speedY = 6305052745166507 / 2 ^ 52,
      color = ''rgba(6, 182, 212, '', opacity = 0.3, opacityDirection = 1 \<rparr>"
proof -
  have r101: "rnd ((- 303153516413419 / 2 ^ 49) * (- 303153516413419 / 2 ^ 49)) =
      5224026978897945 / 2 ^ 54"
    by (rule rnd_eqI_neg [where m = 5224026978897945 and n = 54]) simp_all
  have r102: "rnd ((1576263186291627 / 2 ^ 50) * (1576263186291627 / 2 ^ 50)) =
      2206773104214783 / 2 ^ 50"
    by (rule rnd_eqI_neg [where m = 8827092416859132 and n = 52]) simp_all
  have r103: "rnd ((5224026978897945 / 2 ^ 54) + (2206773104214783 / 2 ^ 50)) =
      5066549580791809 / 2 ^ 51"
    by (rule rnd_eqI_neg [where m = 5066549580791809 and n = 51]) simp_all
  have r104: "rnd (sqrt (5066549580791809 / 2 ^ 51)) = 6755399441055745 / 2 ^ 52"
    by (rule rnd_sqrt_eqI_neg [where m = 6755399441055745 and n = 52]) simp_all
  have r105: "rnd ((- 303153516413419 / 2 ^ 49) / (6755399441055745 / 2 ^ 52)) =
      - 1616818754204901 / 2 ^ 52"
    by (rule rnd_eqI_neg [where m = "- 6467275016819604" and n = 54]) simp_all
  have r106: "rnd ((- 1616818754204901 / 2 ^ 52) * (3 / 2)) = - 4850456262614703 / 2 ^ 53"
    by (rule rnd_eqI_neg [where m = "- 4850456262614703" and n = 53]) simp_all
  have r107: "rnd ((1576263186291627 / 2 ^ 50) / (6755399441055745 / 2 ^ 52)) =
      8406736993555343 / 2 ^ 53"
    by (rule rnd_eqI_neg [where m = 8406736993555343 and n = 53]) simp_all
  have r108: "rnd ((8406736993555343 / 2 ^ 53) * (3 / 2)) = 6305052745166507 / 2 ^ 52"
    by (rule rnd_eqI_neg [where m = 6305052745166507 and n = 52]) simp_all
  have fast: "(3::real) / 2 < (6755399441055745 / 2 ^ 52)" by simp
  show ?thesis
    by (simp add: limitSpeed_fastI [OF _ _ r101 r102 r103 r104 fast r105 r106 r107 r108])
qed

lemma example_doubles:
  "is_double (- 303153516413419 / 2 ^ 49)" "is_double (1576263186291627 / 2 ^ 50)"
proof -
  have r201: "rnd (- 303153516413419 / 2 ^ 49) = - 303153516413419 / 2 ^ 49"
    by (rule rnd_eqI_neg [where m = "- 4850456262614704" and n = 53]) simp_all
  have r202: "rnd (1576263186291627 / 2 ^ 50) = 1576263186291627 / 2 ^ 50"
    by (rule rnd_eqI_neg [where m = 6305052745166508 and n = 52]) simp_all
  from r201 show "is_double (- 303153516413419 / 2 ^ 49)" by (simp only: is_double_def)
  from r202 show "is_double (1576263186291627 / 2 ^ 50)" by (simp only: is_double_def)
qed

text \<open>The error of rounding, relative to the number rounded.\<close>

lemma rnd_upper: "\<bar>rnd x\<bar> \<le> \<bar>x\<bar> * (1 + roundoff)"
proof -
  have "\<bar>rnd x\<bar> \<le> \<bar>x\<bar> + \<bar>rnd x - x\<bar>" by linarith
  also have "\<dots> \<le> \<bar>x\<bar> + \<bar>x\<bar> / 2 ^ 53" using rnd_error [of x] by simp
  finally show ?thesis by (simp add: roundoff_def algebra_simps)
qed

lemma rnd_lower:
  assumes "0 \<le> x"
  shows "x * (1 - roundoff) \<le> rnd x"
proof -
  have "x - \<bar>rnd x - x\<bar> \<le> rnd x" by linarith
  moreover have "\<bar>rnd x - x\<bar> \<le> x / 2 ^ 53" using rnd_error [of x] assms by simp
  ultimately show ?thesis by (simp add: roundoff_def algebra_simps)
qed

lemma rnd_nonneg: "0 \<le> x \<Longrightarrow> 0 \<le> rnd x"
proof -
  assume x: "0 \<le> x"
  have "0 \<le> x * (1 - roundoff)" using x by (simp add: roundoff_def)
  with rnd_lower [OF x] show ?thesis by linarith
qed

lemma computedSpeed_lower: "speedOf p * (1 - roundoff)\<^sup>2 \<le> computedSpeed p"
proof -
  let ?u = "1 - roundoff"
  let ?a = "rnd (speedX p * speedX p)" and ?b = "rnd (speedY p * speedY p)"
  have u: "0 \<le> ?u" by (simp add: roundoff_def)
  have m2: "(speedOf p)\<^sup>2 = speedX p * speedX p + speedY p * speedY p"
    by (simp add: speedOf_def power2_eq_square)
  have m0: "0 \<le> speedOf p" by (simp add: speedOf_def)
  have a: "speedX p * speedX p * ?u \<le> ?a" by (rule rnd_lower) simp
  have b: "speedY p * speedY p * ?u \<le> ?b" by (rule rnd_lower) simp
  have a0: "0 \<le> ?a" by (rule rnd_nonneg) simp
  have b0: "0 \<le> ?b" by (rule rnd_nonneg) simp
  from a b have ab: "(speedOf p)\<^sup>2 * ?u \<le> ?a + ?b"
    by (simp add: m2 algebra_simps)
  have "(speedOf p)\<^sup>2 * ?u * ?u \<le> (?a + ?b) * ?u"
    using ab u by (rule mult_right_mono)
  also have "\<dots> \<le> rnd (?a + ?b)"
    using a0 b0 by (intro rnd_lower) simp
  finally have c: "(speedOf p * ?u)\<^sup>2 \<le> rnd (?a + ?b)"
    by (simp add: power2_eq_square algebra_simps)
  have "speedOf p * ?u = sqrt ((speedOf p * ?u)\<^sup>2)"
    using m0 u by simp
  also have "\<dots> \<le> sqrt (rnd (?a + ?b))"
    using c by (simp only: real_sqrt_le_iff)
  finally have s: "speedOf p * ?u \<le> sqrt (rnd (?a + ?b))" .
  have "speedOf p * ?u * ?u \<le> sqrt (rnd (?a + ?b)) * ?u"
    using s u by (rule mult_right_mono)
  also have "\<dots> \<le> rnd (sqrt (rnd (?a + ?b)))"
    using a0 b0 by (intro rnd_lower) (simp add: rnd_nonneg)
  finally show ?thesis
    by (simp add: computedSpeed_def power2_eq_square algebra_simps)
qed

lemma limitSpeed_slow: "computedSpeed p \<le> maxSpeed \<Longrightarrow> limitSpeed p = Inr p"
  by (simp add: limitSpeed_def Let_def)

lemma limitSpeed_fast:
  assumes "maxSpeed < computedSpeed p"
  shows "limitSpeed p =
         Inr (p\<lparr> speedX := rnd (rnd (speedX p / computedSpeed p) * maxSpeed),
                 speedY := rnd (rnd (speedY p / computedSpeed p) * maxSpeed) \<rparr>)"
proof -
  have "0 < maxSpeed" by (simp add: maxSpeed_def)
  with assms have "computedSpeed p \<noteq> 0" by linarith
  with assms show ?thesis
    by (simp add: limitSpeed_def Let_def fdiv_def)
qed

lemma limitSpeed_finite: "\<exists>p'. limitSpeed p = Inr p'"
proof (cases "computedSpeed p \<le> maxSpeed")
  case True
  then show ?thesis by (simp add: limitSpeed_slow)
next
  case False
  then show ?thesis by (simp add: limitSpeed_fast)
qed

lemma rescaled_component:
  assumes "0 < s"
  shows "\<bar>rnd (rnd (v / s) * maxSpeed)\<bar> \<le> \<bar>v\<bar> * (maxSpeed * (1 + roundoff)\<^sup>2 / s)"
proof -
  have m: "0 \<le> maxSpeed" by (simp add: maxSpeed_def)
  have r: "0 \<le> 1 + roundoff" by (simp add: roundoff_def)
  have "\<bar>rnd (rnd (v / s) * maxSpeed)\<bar> \<le> \<bar>rnd (v / s) * maxSpeed\<bar> * (1 + roundoff)"
    by (rule rnd_upper)
  also have "\<dots> = \<bar>rnd (v / s)\<bar> * (maxSpeed * (1 + roundoff))"
    using m by (simp add: abs_mult)
  also have "\<dots> \<le> \<bar>v / s\<bar> * (1 + roundoff) * (maxSpeed * (1 + roundoff))"
    using rnd_upper [of "v / s"] m r by (intro mult_right_mono) simp_all
  also have "\<dots> = \<bar>v\<bar> * (maxSpeed * (1 + roundoff)\<^sup>2 / s)"
    using assms by (simp add: power2_eq_square abs_mult)
  finally show ?thesis .
qed

lemma speedOf_scaled:
  assumes "\<bar>wx\<bar> \<le> \<bar>speedX p\<bar> * c" and "\<bar>wy\<bar> \<le> \<bar>speedY p\<bar> * c" and "0 \<le> c"
  shows "speedOf (p\<lparr> speedX := wx, speedY := wy \<rparr>) \<le> speedOf p * c"
proof -
  have "wx\<^sup>2 \<le> (\<bar>speedX p\<bar> * c)\<^sup>2"
    using assms(1,3) by (intro abs_le_square_iff [THEN iffD1]) simp
  moreover have "wy\<^sup>2 \<le> (\<bar>speedY p\<bar> * c)\<^sup>2"
    using assms(2,3) by (intro abs_le_square_iff [THEN iffD1]) simp
  ultimately have "wx\<^sup>2 + wy\<^sup>2 \<le> ((speedX p)\<^sup>2 + (speedY p)\<^sup>2) * c\<^sup>2"
    by (simp add: power_mult_distrib algebra_simps)
  then have "sqrt (wx\<^sup>2 + wy\<^sup>2) \<le> sqrt (((speedX p)\<^sup>2 + (speedY p)\<^sup>2) * c\<^sup>2)"
    by (simp only: real_sqrt_le_iff)
  also have "\<dots> = speedOf p * c"
    using assms(3) by (simp add: speedOf_def real_sqrt_mult)
  finally show ?thesis by (simp add: speedOf_def)
qed

lemma roundoff_slack:
  "maxSpeed \<le> speedBound * (1 - roundoff)\<^sup>2"
  "maxSpeed * (1 + roundoff)\<^sup>2 \<le> speedBound * (1 - roundoff)\<^sup>2"
  by (simp_all add: speedBound_def maxSpeed_def roundoff_def power2_eq_square)

lemma limitSpeed_bounded: "\<exists>p'. limitSpeed p = Inr p' \<and> speedOf p' \<le> speedBound"
proof (cases "computedSpeed p \<le> maxSpeed")
  case True
  have u: "0 < (1 - roundoff)\<^sup>2" by (simp add: roundoff_def)
  have "speedOf p * (1 - roundoff)\<^sup>2 \<le> speedBound * (1 - roundoff)\<^sup>2"
    using computedSpeed_lower [of p] True roundoff_slack(1) by linarith
  with u have "speedOf p \<le> speedBound" by simp
  with True show ?thesis by (simp add: limitSpeed_slow)
next
  case False
  let ?s = "computedSpeed p"
  let ?c = "maxSpeed * (1 + roundoff)\<^sup>2 / ?s"
  let ?p' = "p\<lparr> speedX := rnd (rnd (speedX p / ?s) * maxSpeed),
                 speedY := rnd (rnd (speedY p / ?s) * maxSpeed) \<rparr>"
  from False have fast: "maxSpeed < ?s" by simp
  have "0 < maxSpeed" by (simp add: maxSpeed_def)
  with fast have s: "0 < ?s" by linarith
  have c: "0 \<le> ?c" using s by (simp add: maxSpeed_def)
  have u: "0 < (1 - roundoff)\<^sup>2" by (simp add: roundoff_def)
  have m0: "0 \<le> speedOf p" by (simp add: speedOf_def)
  have "speedOf ?p' \<le> speedOf p * ?c"
    using rescaled_component [OF s] c by (intro speedOf_scaled) simp_all
  also have "\<dots> = (speedOf p / ?s) * (maxSpeed * (1 + roundoff)\<^sup>2)"
    by simp
  also have "\<dots> \<le> (1 / (1 - roundoff)\<^sup>2) * (maxSpeed * (1 + roundoff)\<^sup>2)"
  proof (rule mult_right_mono)
    have "speedOf p * (1 - roundoff)\<^sup>2 \<le> ?s" by (rule computedSpeed_lower)
    then show "speedOf p / ?s \<le> 1 / (1 - roundoff)\<^sup>2"
      using s u by (simp add: divide_simps mult.commute)
    show "0 \<le> maxSpeed * (1 + roundoff)\<^sup>2" by (simp add: maxSpeed_def)
  qed
  also have "\<dots> \<le> speedBound"
    using roundoff_slack(2) u by (simp add: divide_simps mult.commute)
  finally have "speedOf ?p' \<le> speedBound" .
  with limitSpeed_fast [OF fast] show ?thesis by simp
qed

lemma speedOf_le_iff:
  assumes "0 \<le> c"
  shows "speedOf p \<le> c \<longleftrightarrow> (speedX p)\<^sup>2 + (speedY p)\<^sup>2 \<le> c\<^sup>2"
proof -
  have "speedOf p \<le> c \<longleftrightarrow> sqrt ((speedX p)\<^sup>2 + (speedY p)\<^sup>2) \<le> sqrt (c\<^sup>2)"
    using assms by (simp add: speedOf_def)
  then show ?thesis by (simp only: real_sqrt_le_iff)
qed

text \<open>
  C5, as stated, fails: the particle at (10, 10) with velocity (-0.609375, 1.359375) has a
  speed below 1.5, and the force of the pointer at (36, 69) leaves it the velocity
  (-0.5385088222692129, 1.4000029458319814), whose length is above 1.5.
\<close>

theorem mouseForce_exceeds_maxSpeed:
  "speedOf \<lparr> x_p = 10, y_p = 10, size_p = 1, speedX = - 39 / 2 ^ 6, speedY = 87 / 2 ^ 6,
      color = ''rgba(6, 182, 212, '', opacity = 0.3, opacityDirection = 1 \<rparr> \<le> maxSpeed \<and>
   mouseForce 36 69
    \<lparr> x_p = 10, y_p = 10, size_p = 1, speedX = - 39 / 2 ^ 6, speedY = 87 / 2 ^ 6,
      color = ''rgba(6, 182, 212, '', opacity = 0.3, opacityDirection = 1 \<rparr> =
   Inr \<lparr> x_p = 10, y_p = 10, size_p = 1, speedX = - 303153516413419 / 2 ^ 49,
         speedY = 1576263186291627 / 2 ^ 50,
         color = ''rgba(6, 182, 212, '', opacity = 0.3, opacityDirection = 1 \<rparr> \<and>
   \<not> speedOf \<lparr> x_p = 10, y_p = 10, size_p = 1, speedX = - 303153516413419 / 2 ^ 49,
         speedY = 1576263186291627 / 2 ^ 50,
         color = ''rgba(6, 182, 212, '', opacity = 0.3, opacityDirection = 1 \<rparr> \<le> maxSpeed"
proof -
  have m: "0 \<le> maxSpeed" by (simp add: maxSpeed_def)
  show ?thesis
    unfolding speedOf_le_iff [OF m] using force_step_example
    by (simp add: maxSpeed_def power2_eq_square)
qed

text \<open>
  C5, amended: for every particle with a speed of at most \<open>1.5 * (1 + 5 / 2 ^ 53)\<close>, which
  every speed of at most 1.5 is, and every pointer position, the force application
  yields a particle with finite velocity whose speed is at most \<open>1.5 * (1 + 5 / 2 ^ 53)\<close>.
\<close>

theorem mouseForce_speed_bounded:
  assumes "speedOf p \<le> speedBound"
  shows "\<exists>p'. mouseForce mouseX mouseY p = Inr p' \<and> speedOf p' \<le> speedBound"
proof (cases "rnd (sqrt (rnd (rnd (rnd (mouseX - x_p p) * rnd (mouseX - x_p p)) +
                              rnd (rnd (mouseY - y_p p) * rnd (mouseY - y_p p)))))
              < interactionRadius")
  case True
  then show ?thesis
    using limitSpeed_bounded by (simp add: mouseForce_def Let_def)
next
  case False
  with assms show ?thesis
    by (simp add: mouseForce_def Let_def)
qed

theorem mouseForce_speed_bounded_witness:
  "speedOf \<lparr> x_p = 10, y_p = 10, size_p = 1, speedX = - 39 / 2 ^ 6, speedY = 87 / 2 ^ 6,
      color = ''rgba(6, 182, 212, '', opacity = 0.3, opacityDirection = 1 \<rparr> \<le> speedBound \<and>
   (\<exists>p'. mouseForce 36 69
      \<lparr> x_p = 10, y_p = 10, size_p = 1, speedX = - 39 / 2 ^ 6, speedY = 87 / 2 ^ 6,
        color = ''rgba(6, 182, 212, '', opacity = 0.3, opacityDirection = 1 \<rparr> = Inr p' \<and>
      speedOf p' \<le> speedBound)"
proof -
  have b: "0 \<le> speedBound" by (simp add: speedBound_def maxSpeed_def roundoff_def)
  have h: "speedOf \<lparr> x_p = 10, y_p = 10, size_p = 1, speedX = - 39 / 2 ^ 6, speedY = 87 / 2 ^ 6,
      color = ''rgba(6, 182, 212, '', opacity = 0.3, opacityDirection = 1 \<rparr> \<le> speedBound"
    unfolding speedOf_le_iff [OF b]
    by (simp add: speedBound_def maxSpeed_def roundoff_def power2_eq_square)
  from h mouseForce_speed_bounded [OF h, of 36 69] show ?thesis by blast
qed

section \<open>Pointer on the particle\<close>

lemma rnd_double: "is_double x \<Longrightarrow> rnd x = x"
  by (simp add: is_double_def)

lemma rnd_100: "rnd 100 = 100"
  by (rule rnd_eqI_neg [where m = "100 * 2 ^ 46" and n = 46]) simp_all

lemma rnd_1: "rnd 1 = 1"
  by (rule rnd_eqI_neg [where m = "2 ^ 52" and n = 52]) simp_all

lemma mouseForce_coincident:
  assumes "is_double (speedX p)" and "is_double (speedY p)"
  shows "mouseForce (x_p p) (y_p p) p = limitSpeed p"
proof -
  have "p\<lparr> speedX := speedX p, speedY := speedY p \<rparr> = p" by simp
  with assms show ?thesis
    by (simp add: mouseForce_def interactionRadius_def Let_def rnd_0 rnd_100 rnd_1 rnd_double)
qed

text \<open>
  C9, as stated, fails: the particle that the force above leaves, with the pointer moved
  onto it, has its velocity changed by the limiter.
\<close>

theorem coincident_pointer_changes_velocity:
  "mouseForce 10 10
     \<lparr> x_p = 10, y_p = 10, size_p = 1, speedX = - 303153516413419 / 2 ^ 49,
       speedY = 1576263186291627 / 2 ^ 50,
       color = ''rgba(6, 182, 212, '', opacity = 0.3, opacityDirection = 1 \<rparr> =
   Inr \<lparr> x_p = 10, y_p = 10, size_p = 1, speedX = - 4850456262614703 / 2 ^ 53,
         speedY = 6305052745166507 / 2 ^ 52,
         color = ''rgba(6, 182, 212, '', opacity = 0.3, opacityDirection = 1 \<rparr> \<and>
   mouseForce 10 10
     \<lparr> x_p = 10, y_p = 10, size_p = 1, speedX = - 303153516413419 / 2 ^ 49,
       speedY = 1576263186291627 / 2 ^ 50,
       color = ''rgba(6, 182, 212, '', opacity = 0.3, opacityDirection = 1 \<rparr> \<noteq>
   Inr \<lparr> x_p = 10, y_p = 10, size_p = 1, speedX = - 303153516413419 / 2 ^ 49,
         speedY = 1576263186291627 / 2 ^ 50,
         color = ''rgba(6, 182, 212, '', opacity = 0.3, opacityDirection = 1 \<rparr>"
proof -
  let ?p = "\<lparr> x_p = 10, y_p = 10, size_p = 1, speedX = - 303153516413419 / 2 ^ 49,
       speedY = 1576263186291627 / 2 ^ 50,
       color = ''rgba(6, 182, 212, '', opacity = 0.3, opacityDirection = 1 \<rparr>"
  have "mouseForce (x_p ?p) (y_p ?p) ?p = limitSpeed ?p"
    by (rule mouseForce_coincident) (simp_all only: particle.select_convs example_doubles)
  then have "mouseForce 10 10 ?p = limitSpeed ?p"
    by (simp only: particle.select_convs)
  also note limit_step_example
  finally show ?thesis
    by (simp only:) simp
qed

text \<open>
  C9, amended: for a particle at the pointer's position (its velocity being doubles) the
  force adds nothing to the velocity, so that the result is that of the speed limit
  alone; the limit never yields a non-finite velocity; and the particle comes out
  unchanged whenever the speed the limiter computes is at most \<open>maxSpeed\<close>.
\<close>

theorem coincident_pointer_zero_force:
  assumes "is_double (speedX p)" and "is_double (speedY p)"
  shows "mouseForce (x_p p) (y_p p) p = limitSpeed p \<and>
         (\<exists>p'. limitSpeed p = Inr p') \<and>
         (computedSpeed p \<le> maxSpeed \<longrightarrow> mouseForce (x_p p) (y_p p) p = Inr p)"
  using mouseForce_coincident [OF assms] limitSpeed_finite [of p] limitSpeed_slow [of p]
  by simp

theorem coincident_pointer_zero_force_witness:
  "is_double (speedX \<lparr> x_p = 10, y_p = 10, size_p = 1, speedX = 1, speedY = 0,
             color = ''rgba(6, 182, 212, '', opacity = 0.3, opacityDirection = 1 \<rparr>) \<and>
   is_double (speedY \<lparr> x_p = 10, y_p = 10, size_p = 1, speedX = 1, speedY = 0,
             color = ''rgba(6, 182, 212, '', opacity = 0.3, opacityDirection = 1 \<rparr>) \<and>
   computedSpeed \<lparr> x_p = 10, y_p = 10, size_p = 1, speedX = 1, speedY = 0,
             color = ''rgba(6, 182, 212, '', opacity = 0.3, opacityDirection = 1 \<rparr> \<le> maxSpeed \<and>
   mouseForce 10 10
     \<lparr> x_p = 10, y_p = 10, size_p = 1, speedX = 1, speedY = 0,
       color = ''rgba(6, 182, 212, '', opacity = 0.3, opacityDirection = 1 \<rparr> =
   Inr \<lparr> x_p = 10, y_p = 10, size_p = 1, speedX = 1, speedY = 0,
         color = ''rgba(6, 182, 212, '', opacity = 0.3, opacityDirection = 1 \<rparr>"
proof -
  let ?p = "\<lparr> x_p = 10, y_p = 10, size_p = 1, speedX = 1, speedY = 0,
             color = ''rgba(6, 182, 212, '', opacity = 0.3, opacityDirection = 1 \<rparr>"
  have d: "is_double (speedX ?p)" "is_double (speedY ?p)"
    by (simp_all add: is_double_def rnd_1 rnd_0)
  have s: "computedSpeed ?p \<le> maxSpeed"
    by (simp add: computedSpeed_def rnd_1 rnd_0 maxSpeed_def)
  from coincident_pointer_zero_force [OF d] s
  have "mouseForce (x_p ?p) (y_p ?p) ?p = Inr ?p" by blast
  then have "mouseForce 10 10 ?p = Inr ?p" by simp
  with d s show ?thesis by blast
qed

section \<open>Reduced motion\<close>

lemma not_stroke_draw: "\<not> is_StrokeLine (draw p)"
  by (simp add: draw_def)

lemma is_stroke_strokeOf: "is_StrokeLine (strokeOf ps c)"
  by (simp add: strokeOf_def Let_def)

text \<open>
  C7: a frame with the reduced-motion preference leaves the same state as the frame
  without it (every particle updated, the grid and the frame counter as usual), paints
  the cleared canvas and every updated particle, and differs from the other frame's
  painting only by the connection lines, which it omits.
\<close>

theorem reduced_motion_skips_lines_only:
  "fst (animate True cv st) = fst (animate False cv st) \<and>
   particles (fst (animate True cv st)) = map (update cv) (particles st) \<and>
   snd (animate True cv st) =
     ClearRect 0 0 (real (width cv)) (real (height cv)) #
     map draw (map (update cv) (particles st)) \<and>
   snd (animate True cv st) = filter (\<lambda>op. \<not> is_StrokeLine op) (snd (animate False cv st)) \<and>
   snd (animate False cv st) =
     snd (animate True cv st) @
     map (strokeOf (particles (fst (animate False cv st))))
       (connectionPass (particles (fst (animate False cv st)))
          (gridRef (fst (animate False cv st))))"
proof -
  define ps where "ps = map (update cv) (particles st)"
  define g where "g = (if animationIdRef st = 0 \<or> animationIdRef st mod 3 = 0
      then (gridRef st)\<lparr> cells := buildGrid ps (cellSize (gridRef st)) \<rparr> else gridRef st)"
  define st' where
    "st' = \<lparr> particles = ps, gridRef = g, animationIdRef = animationIdRef st + 1 \<rparr>"
  define dots where "dots = ClearRect 0 0 (real (width cv)) (real (height cv)) # map draw ps"
  have t: "animate True cv st = (st', dots)"
    by (simp add: animate_def Let_def st'_def dots_def g_def ps_def)
  have f: "animate False cv st = (st', dots @ map (strokeOf ps) (connectionPass ps g))"
    by (simp add: animate_def Let_def st'_def dots_def g_def ps_def)
  have "filter (\<lambda>op. \<not> is_StrokeLine op) dots = dots"
    unfolding filter_id_conv by (auto simp: dots_def not_stroke_draw)
  moreover have "filter (\<lambda>op. \<not> is_StrokeLine op) (map (strokeOf ps) cs) = []" for cs
    unfolding filter_empty_conv by (auto simp: is_stroke_strokeOf)
  ultimately have "dots =
      filter (\<lambda>op. \<not> is_StrokeLine op) (dots @ map (strokeOf ps) (connectionPass ps g))"
    by simp
  then show ?thesis
    unfolding t f by (simp add: st'_def) (simp add: dots_def ps_def)
qed

section \<open>Particle count\<close>

lemma particleCount_quotient:
  "particleCount lowPower cv =
     (if lowPower then max 30 (areaQuotient True cv)
      else max 80 (min 100 (areaQuotient False cv)))"
  by (simp add: particleCount_def areaQuotient_def)

lemma reduced_divisor_quotient:
  assumes "0 < d" and "d \<le> 8000"
  shows "areaQuotient False canvas_on_mount \<le>
         (width canvas_on_mount * height canvas_on_mount) div d"
proof -
  have "(45000::nat) div 8000 \<le> 45000 div d"
    using assms by (intro div_le_mono2) simp_all
  then show ?thesis by (simp add: areaQuotient_def canvas_on_mount_def)
qed




section \<open>Scroll progress with nothing to scroll\<close>

text \<open>
  C8: with a document as high as the viewport (\<open>docHeight = 0\<close>) the hook
  \<open>useScrollOptimized\<close> gives 0, while \<open>handleScroll\<close> of \<open>App.jsx\<close> and the progress ray of
  \<open>MagicalScrollEffects.jsx\<close> divide zero by zero.
\<close>

theorem scroll_progress_docHeight_zero:
  "useScrollOptimized_scrollPercent 0 900 900 = Inr 0 \<and>
   App_scrollPercent 0 900 900 = Inl NaN \<and>
   MagicalScrollEffects_rayWidth 0 900 900 = Inl NaN"
  by (simp add: App_scrollPercent_def MagicalScrollEffects_rayWidth_def
      useScrollOptimized_scrollPercent_def fdiv_def)

end
